theory Spec2Isabelle
  imports Main "HOL-Library.Word"
begin

section \<open>The receiver of openrsync (receiver.c)\<close>

text \<open>
  The receiver calls a number of collaborators that live in other files (the wire
  primitives, the file-list code, the uploader, the downloader) and in the operating
  system (pledge, unveil, poll, the metadata system calls). Each call is an event of a
  trace, recorded with what the call returned, and what the calls return is read from an
  environment record. The receiver itself is translated statement by statement: every
  \<open>goto out\<close> is a branch that runs the cleanup and returns.
\<close>

subsection \<open>Data\<close>

type_synonym int32 = "32 word"
type_synonym mode_t = "32 word"

text \<open>The fields of \<open>struct opts\<close> that receiver.c reads.\<close>

record opts =
  server :: bool
  recursive :: bool
  dry_run :: bool
  preserve_times :: bool
  preserve_perms :: bool
  del :: bool

text \<open>The fields of \<open>struct sess\<close> that receiver.c reads (\<open>mplex_read_remain\<close> is
  read after \<open>io_read_flush\<close> has set it, so it is an answer of the environment).\<close>

record sess =
  opts :: opts
  mplex_reads :: bool

record flstat =
  mode :: mode_t
  mtime :: int

record flist =
  path :: string
  st :: flstat

text \<open>Modelled from the spec: the macro \<open>S_ISDIR\<close> of sys/stat.h is not under src/;
  "metadata denotes a directory" is the POSIX test of the file-type bits
  (\<open>S_IFMT = 0170000\<close>, \<open>S_IFDIR = 0040000\<close>).\<close>

definition S_ISDIR :: "mode_t \<Rightarrow> bool" where
  "S_ISDIR m = (and m 0xF000 = 0x4000)"

text \<open>Modelled from the spec: the macro \<open>INFTIM\<close> of poll.h is not under src/; it is the
  timeout that makes poll "wait indefinitely", \<open>-1\<close>.\<close>

definition INFTIM :: int where
  "INFTIM = - 1"

text \<open>The bits of \<open>revents\<close> that the loop tests; a \<open>revents\<close> word is the set of its bits.\<close>

datatype pollbit = POLLIN | POLLERR | POLLHUP | POLLNVAL

subsection \<open>The environment\<close>

text \<open>What the collaborators answer during one turn of the transfer loop. The uploader
  writes the cursor \<open>i\<close>, the second descriptor \<open>pfd[1].fd\<close> and entries of \<open>newdir\<close>
  through the pointers it is given.\<close>

record turn =
  poll_ok :: bool
  revents0 :: "pollbit set"
  revents1 :: "pollbit set"
  up_c :: int
  up_i :: nat
  up_fd :: int
  up_newdir :: "(nat \<times> int) list"
  flush_ok :: bool
  flush_remain :: nat
  dl_c :: int

record env =
  pledge_ok :: bool
  wr_preamble :: bool
  flist_recv :: "flist list option"
  rd_ioerror :: "int32 option"
  strdup_ok :: bool
  mkpath_ok :: bool
  open_ret :: int
  gen_local_ok :: bool
  gen_local_dfl :: "flist list option"
  unveil_ok :: bool
  unveil_lock_ok :: bool
  flist_del_ok :: bool
  calloc_ok :: bool
  polls :: "turn list"
  utimensat_ok :: "nat \<Rightarrow> bool"
  fchmodat_ok :: "nat \<Rightarrow> bool"
  wr_phase :: bool
  rd_ack :: "int32 option"
  stats_recv_ok :: bool
  wr_goodbye :: bool

subsection \<open>Traces\<close>

datatype level = ERR | ERRX | ERRX1 | WARNX | LOG1 | LOG2 | LOG4

text \<open>One constructor for each call the receiver makes. \<open>Utimensat k\<close> and \<open>Fchmodat k\<close>
  are the calls of \<open>post_dir\<close> on the entry \<open>f = &fl[k]\<close>: the path, the time and the
  mode they pass are those of entry \<open>k\<close>.\<close>

datatype event =
    Pledge bool
  | Io_write_int int32 bool
  | Flist_recv bool
  | Io_read_int "int32 option"
  | Strdup bool
  | Mkpath bool
  | Umask
  | Open_root int
  | Flist_gen_local bool
  | Unveil bool
  | Unveil_lock bool
  | Flist_del bool
  | Calloc bool
  | Poll int bool
  | Rsync_uploader int
  | Io_read_flush bool
  | Rsync_downloader int
  | Utimensat nat bool
  | Fchmodat nat bool
  | Sess_stats_recv bool
  | Close int
  | Log level string

text \<open>How a piece of the function ends: it goes on with a value, it returns \<open>rc\<close>
  (through the label \<open>out\<close>), the assertion fails, or it is still waiting in the loop
  when the answers of the environment are used up.\<close>

datatype 'a flow = Go 'a | Ret int | Abort | Wait

type_synonym 'a step = "event list \<times> 'a flow"

definition emit :: "event list \<Rightarrow> 'a step \<Rightarrow> 'a step" where
  "emit evs k = (evs @ fst k, snd k)"

fun bind :: "'a step \<Rightarrow> ('a \<Rightarrow> 'b step) \<Rightarrow> 'b step" where
  "bind (t, Go x) f = emit t (f x)"
| "bind (t, Ret rc) f = (t, Ret rc)"
| "bind (t, Abort) f = (t, Abort)"
| "bind (t, Wait) f = (t, Wait)"

text \<open>The label \<open>out\<close> (lines 363-369): close the directory handle if it is open, return
  \<open>rc\<close>. The three frees have no effect outside the process and are not events.\<close>

definition goto_out :: "int \<Rightarrow> int \<Rightarrow> event list \<Rightarrow> 'a step" where
  "goto_out dfd rc evs = (evs @ (if dfd \<noteq> - 1 then [Close dfd] else []), Ret rc)"

subsection \<open>post_dir (lines 42-81)\<close>

definition post_dir :: "sess \<Rightarrow> env \<Rightarrow> nat \<Rightarrow> int \<Rightarrow> event list \<times> int" where
  "post_dir s e k newdir =
    (if \<not> recursive (opts s) then ([], 1)
     else if dry_run (opts s) then ([], 1)
     else if preserve_times (opts s) \<and> \<not> utimensat_ok e k then
       ([Utimensat k False, Log ERR ''utimensat: %s''], 0)
     else
       (let t1 = (if preserve_times (opts s)
                  then [Utimensat k True, Log LOG4 ''%s: updated date''] else [])
        in if newdir \<noteq> 0 \<or> preserve_perms (opts s) then
             (if \<not> fchmodat_ok e k then
                (t1 @ [Fchmodat k False, Log ERR ''fchmodat: %s''], 0)
              else (t1 @ [Fchmodat k True, Log LOG4 ''%s: updated mode: %o''], 1))
           else (t1, 1)))"

subsection \<open>rsync_receiver (lines 88-370)\<close>

text \<open>Lines 103-137: pledge, the preamble, the file list and its status integer, the
  empty list.\<close>

definition recv_list :: "sess \<Rightarrow> env \<Rightarrow> flist list step" where
  "recv_list s e =
    emit [Pledge (pledge_ok e)]
    (if \<not> pledge_ok e then goto_out (- 1) 0 [Log ERR ''pledge'']
     else
       emit (if \<not> server (opts s) then [Io_write_int 0 (wr_preamble e)] else [])
       (if \<not> server (opts s) \<and> \<not> wr_preamble e then
          goto_out (- 1) 0 [Log ERRX1 ''io_write_int: zero premable'']
        else
          emit [Flist_recv (flist_recv e \<noteq> None)]
          (case flist_recv e of
             None \<Rightarrow> goto_out (- 1) 0 [Log ERRX1 ''flist_recv'']
           | Some fl \<Rightarrow>
               emit [Io_read_int (rd_ioerror e)]
               (case rd_ioerror e of
                  None \<Rightarrow> goto_out (- 1) 0 [Log ERRX1 ''io_read_int: io_error'']
                | Some ioerror \<Rightarrow>
                    if ioerror \<noteq> 0 then
                      goto_out (- 1) 0 [Log ERRX1 ''io_error is non-zero'']
                    else if length fl = 0 \<and> \<not> server (opts s) then
                      goto_out (- 1) 1 [Log WARNX ''receiver has empty file list: exiting'']
                    else
                      (if \<not> server (opts s)
                       then [Log LOG1 ''Transfer starting: %zu files''] else [],
                       Go fl)))))"

text \<open>Lines 148-158: the destination directory is created unless in dry-run mode.\<close>

definition mk_destination :: "sess \<Rightarrow> env \<Rightarrow> unit step" where
  "mk_destination s e =
    (if \<not> dry_run (opts s) then
       emit [Strdup (strdup_ok e)]
       (if \<not> strdup_ok e then goto_out (- 1) 0 [Log ERR ''strdup'']
        else
          emit [Mkpath (mkpath_ok e)]
          (if \<not> mkpath_ok e then goto_out (- 1) 0 [Log ERRX1 ''%s: mkpath'']
           else ([], Go ())))
     else ([], Go ()))"

text \<open>Lines 165-173: umask(0), then the directory is opened unless in dry-run mode. The
  value is \<open>dfd\<close>, which stays \<open>-1\<close> in dry-run mode.\<close>

definition open_destination :: "sess \<Rightarrow> env \<Rightarrow> int step" where
  "open_destination s e =
    emit [Umask]
    (if \<not> dry_run (opts s) then
       emit [Open_root (open_ret e)]
       (if open_ret e = - 1 then goto_out (open_ret e) 0 [Log ERR ''%s: open'']
        else ([], Go (open_ret e)))
     else ([], Go (- 1)))"

text \<open>Lines 182-186: the local files are listed when deleting recursively. The value is
  the pointer \<open>dfl\<close>, \<open>None\<close> for \<open>NULL\<close>.\<close>

definition gen_local :: "sess \<Rightarrow> env \<Rightarrow> int \<Rightarrow> flist list option step" where
  "gen_local s e dfd =
    (if del (opts s) \<and> recursive (opts s) then
       emit [Flist_gen_local (gen_local_ok e)]
       (if \<not> gen_local_ok e then goto_out dfd 0 [Log ERRX1 ''%s: flist_gen_local'']
        else ([], Go (gen_local_dfl e)))
     else ([], Go None))"

text \<open>Lines 195-201: unveil of the root, then the lock-down.\<close>

definition sandbox :: "env \<Rightarrow> int \<Rightarrow> unit step" where
  "sandbox e dfd =
    emit [Unveil (unveil_ok e)]
    (if \<not> unveil_ok e then goto_out dfd 0 [Log ERR ''%s: unveil'']
     else
       emit [Unveil_lock (unveil_lock_ok e)]
       (if \<not> unveil_lock_ok e then goto_out dfd 0 [Log ERR ''%s: unveil (lock down)'']
        else ([], Go ())))"

text \<open>Lines 205-209: the deletion, if there is a local list.\<close>

definition deletion :: "env \<Rightarrow> int \<Rightarrow> flist list option \<Rightarrow> unit step" where
  "deletion e dfd dfl =
    (if dfl \<noteq> None then
       emit [Flist_del (flist_del_ok e)]
       (if \<not> flist_del_ok e then goto_out dfd 0 [Log ERRX1 ''%s: flist_del'']
        else ([], Go ()))
     else ([], Go ()))"

text \<open>Lines 218-223: \<open>newdir\<close> is \<open>flsz\<close> zeroes.\<close>

definition alloc_newdir :: "env \<Rightarrow> int \<Rightarrow> nat \<Rightarrow> int list step" where
  "alloc_newdir e dfd flsz =
    emit [Log LOG2 ''%s: ready for phase 1 data'', Calloc (calloc_ok e)]
    (if \<not> calloc_ok e then goto_out dfd 0 [Log ERR ''calloc'']
     else ([], Go (replicate flsz 0)))"

text \<open>Lines 139-223 in their order. The value is \<open>dfd\<close> and \<open>newdir\<close>.\<close>

definition prepare :: "sess \<Rightarrow> env \<Rightarrow> nat \<Rightarrow> (int \<times> int list) step" where
  "prepare s e flsz =
    emit [Log LOG2 ''%s: receiver destination'']
    (bind (mk_destination s e) (\<lambda>_.
     bind (open_destination s e) (\<lambda>dfd.
     bind (gen_local s e dfd) (\<lambda>dfl.
     bind (sandbox e dfd) (\<lambda>_.
     bind (deletion e dfd dfl) (\<lambda>_.
     bind (alloc_newdir e dfd flsz) (\<lambda>newdir.
     ([], Go (dfd, newdir)))))))))"

text \<open>The variables of the transfer loop: the cursor \<open>i\<close>, \<open>pfd[1].fd\<close>, \<open>newdir\<close> and
  \<open>phase\<close>.\<close>

record lstate =
  cursor :: nat
  pfd1_fd :: int
  newdir :: "int list"
  phase :: int

text \<open>Line 243.\<close>

definition timeo :: "nat \<Rightarrow> nat \<Rightarrow> int \<Rightarrow> int" where
  "timeo i flsz fd1 = (if i = flsz \<or> - 1 \<noteq> fd1 then INFTIM else 0)"

text \<open>What a call of the uploader leaves in the variables it has pointers to.\<close>

definition after_uploader :: "turn \<Rightarrow> lstate \<Rightarrow> lstate" where
  "after_uploader r v =
    v\<lparr>cursor := up_i r, pfd1_fd := up_fd r,
      newdir := fold (\<lambda>(k, x) nd. nd[k := x]) (up_newdir r) (newdir v)\<rparr>"

text \<open>Lines 287-315: the downloader's half of one turn. \<open>Inl\<close> is the next turn of the
  loop, \<open>Inr\<close> is the \<open>break\<close>.\<close>

definition download_turn :: "sess \<Rightarrow> int \<Rightarrow> turn \<Rightarrow> lstate \<Rightarrow> (lstate + lstate) step" where
  "download_turn s dfd r v =
    (if POLLIN \<in> revents0 r then
       emit (if mplex_reads s then [Io_read_flush (flush_ok r)] else [])
       (if mplex_reads s \<and> \<not> flush_ok r then goto_out dfd 0 [Log ERRX1 ''io_read_flush'']
        else if mplex_reads s \<and> flush_remain r = 0 then ([], Go (Inl v))
        else
          emit [Rsync_downloader (dl_c r)]
          (if dl_c r < 0 then goto_out dfd 0 [Log ERRX1 ''rsync_downloader'']
           else if dl_c r = 0 then
             (if phase v \<noteq> 0 then ([], Abort)
              else ([Log LOG2 ''%s: receiver ready for phase 2 data''],
                    Go (Inr (v\<lparr>phase := phase v + 1\<rparr>))))
           else ([], Go (Inl v))))
     else ([], Go (Inl v)))"

text \<open>Lines 243-276, then the downloader's half.\<close>

definition loop_body :: "sess \<Rightarrow> nat \<Rightarrow> int \<Rightarrow> turn \<Rightarrow> lstate \<Rightarrow> (lstate + lstate) step" where
  "loop_body s flsz dfd r v =
    emit [Poll (timeo (cursor v) flsz (pfd1_fd v)) (poll_ok r)]
    (if \<not> poll_ok r then goto_out dfd 0 [Log ERR ''poll'']
     else if revents0 r \<inter> {POLLERR, POLLNVAL} \<noteq> {} then goto_out dfd 0 [Log ERRX ''poll: bad fd'']
     else if revents1 r \<inter> {POLLERR, POLLNVAL} \<noteq> {} then goto_out dfd 0 [Log ERRX ''poll: bad fd'']
     else if POLLHUP \<in> revents0 r then goto_out dfd 0 [Log ERRX ''poll: hangup'']
     else if POLLHUP \<in> revents1 r then goto_out dfd 0 [Log ERRX ''poll: hangup'']
     else if cursor v < flsz \<or> POLLIN \<in> revents1 r then
       emit [Rsync_uploader (up_c r)]
       (if up_c r < 0 then goto_out dfd 0 [Log ERRX1 ''rsync_uploader'']
        else download_turn s dfd r (after_uploader r v))
     else download_turn s dfd r v)"

text \<open>The loop of lines 231-316, one turn for each answer of the environment.\<close>

fun transfer_loop :: "sess \<Rightarrow> nat \<Rightarrow> int \<Rightarrow> lstate \<Rightarrow> turn list \<Rightarrow> lstate step" where
  "transfer_loop s flsz dfd v [] = ([], Wait)"
| "transfer_loop s flsz dfd v (r # rs) =
    bind (loop_body s flsz dfd r v)
      (\<lambda>x. case x of Inl v' \<Rightarrow> transfer_loop s flsz dfd v' rs | Inr v' \<Rightarrow> ([], Go v'))"

text \<open>The loop of lines 322-327, from index \<open>k\<close> on; \<open>fl\<close> is what is left of the list.\<close>

fun fixup_from :: "sess \<Rightarrow> env \<Rightarrow> int \<Rightarrow> int list \<Rightarrow> nat \<Rightarrow> flist list \<Rightarrow> unit step" where
  "fixup_from s e dfd nd k [] = ([], Go ())"
| "fixup_from s e dfd nd k (f # fl) =
    (if \<not> S_ISDIR (mode (st f)) then fixup_from s e dfd nd (Suc k) fl
     else
       emit (fst (post_dir s e k (nd ! k)))
       (if snd (post_dir s e k (nd ! k)) = 0 then goto_out dfd 0 []
        else fixup_from s e dfd nd (Suc k) fl))"

text \<open>Lines 320-327.\<close>

definition fixup :: "sess \<Rightarrow> env \<Rightarrow> int \<Rightarrow> int list \<Rightarrow> flist list \<Rightarrow> unit step" where
  "fixup s e dfd nd fl =
    (if preserve_times (opts s) \<or> preserve_perms (opts s)
     then fixup_from s e dfd nd 0 fl else ([], Go ()))"

text \<open>Lines 331-343.\<close>

definition handshake :: "env \<Rightarrow> int \<Rightarrow> int \<Rightarrow> int step" where
  "handshake e dfd ph =
    (if 1 = ph then
       emit [Io_write_int (- 1) (wr_phase e)]
       (if \<not> wr_phase e then goto_out dfd 0 [Log ERRX1 ''io_write_int: send complete'']
        else
          emit [Io_read_int (rd_ack e)]
          (case rd_ack e of
             None \<Rightarrow> goto_out dfd 0 [Log ERRX1 ''io_read_int: phase ack'']
           | Some ioerror \<Rightarrow>
               if - 1 \<noteq> ioerror then goto_out dfd 0 [Log ERRX ''expected phase ack'']
               else ([], Go (ph + 1))))
     else ([], Go ph))"

text \<open>Lines 347-351.\<close>

definition stats :: "sess \<Rightarrow> env \<Rightarrow> int \<Rightarrow> unit step" where
  "stats s e dfd =
    emit (if \<not> server (opts s) then [Sess_stats_recv (stats_recv_ok e)] else [])
    (if \<not> server (opts s) \<and> \<not> stats_recv_ok e then goto_out dfd 0 [Log ERRX1 ''sess_stats_recv'']
     else ([], Go ()))"

text \<open>Lines 355-369.\<close>

definition goodbye :: "env \<Rightarrow> int \<Rightarrow> unit step" where
  "goodbye e dfd =
    emit [Io_write_int (- 1) (wr_goodbye e)]
    (if \<not> wr_goodbye e then goto_out dfd 0 [Log ERRX1 ''io_write_int: update complete'']
     else goto_out dfd 1 [Log LOG2 ''receiver finished updating''])"

text \<open>Lines 331-369 in their order.\<close>

definition close_out :: "sess \<Rightarrow> env \<Rightarrow> int \<Rightarrow> int \<Rightarrow> unit step" where
  "close_out s e dfd ph =
    bind (handshake e dfd ph) (\<lambda>_.
    bind (stats s e dfd) (\<lambda>_.
    goodbye e dfd))"

text \<open>The whole function. The descriptors \<open>fdin\<close> and \<open>fdout\<close> and the string \<open>root\<close> are
  only handed on to the collaborators, so they are not arguments of the model.\<close>

definition rsync_receiver :: "sess \<Rightarrow> env \<Rightarrow> unit step" where
  "rsync_receiver s e =
    bind (recv_list s e) (\<lambda>fl.
    bind (prepare s e (length fl)) (\<lambda>(dfd, nd).
    bind (transfer_loop s (length fl) dfd
            \<lparr>cursor = 0, pfd1_fd = - 1, newdir = nd, phase = 0\<rparr> (polls e)) (\<lambda>v.
    bind (fixup s e dfd (newdir v) fl) (\<lambda>_.
    close_out s e dfd (phase v)))))"

subsection \<open>Reading traces\<close>

text \<open>\<open>never_after P Q t\<close>: no event that is a \<open>P\<close> comes after an event that is a \<open>Q\<close>.\<close>

fun never_after :: "(event \<Rightarrow> bool) \<Rightarrow> (event \<Rightarrow> bool) \<Rightarrow> event list \<Rightarrow> bool" where
  "never_after P Q [] = True"
| "never_after P Q (x # xs) = ((Q x \<longrightarrow> \<not> list_ex P xs) \<and> never_after P Q xs)"

fun is_gen_local :: "event \<Rightarrow> bool" where
  "is_gen_local (Flist_gen_local _) = True"
| "is_gen_local _ = False"

fun is_flist_del :: "event \<Rightarrow> bool" where
  "is_flist_del (Flist_del _) = True"
| "is_flist_del _ = False"

text \<open>The Deleter pass: the enumeration and the removal.\<close>

definition is_deleter :: "event \<Rightarrow> bool" where
  "is_deleter x = (is_gen_local x \<or> is_flist_del x)"

text \<open>The sandbox boundary: the unveil of the root and the lock-down.\<close>

fun is_sandbox :: "event \<Rightarrow> bool" where
  "is_sandbox (Unveil _) = True"
| "is_sandbox (Unveil_lock _) = True"
| "is_sandbox _ = False"

fun is_lock_down :: "event \<Rightarrow> bool" where
  "is_lock_down (Unveil_lock ok) = ok"
| "is_lock_down _ = False"

text \<open>What dry-run mode keeps from the file system in this function: the creation of
  the destination, its opening, and the metadata calls of \<open>post_dir\<close>.\<close>

fun is_dry_suppressed :: "event \<Rightarrow> bool" where
  "is_dry_suppressed (Strdup _) = True"
| "is_dry_suppressed (Mkpath _) = True"
| "is_dry_suppressed (Open_root _) = True"
| "is_dry_suppressed (Utimensat _ _) = True"
| "is_dry_suppressed (Fchmodat _ _) = True"
| "is_dry_suppressed _ = False"

text \<open>A sentinel is a write of \<open>-1\<close>; the preamble is a write of \<open>0\<close>.\<close>

fun is_sentinel :: "event \<Rightarrow> bool" where
  "is_sentinel (Io_write_int x _) = (x = - 1)"
| "is_sentinel _ = False"

fun is_preamble :: "event \<Rightarrow> bool" where
  "is_preamble (Io_write_int x _) = (x = 0)"
| "is_preamble _ = False"

fun is_stats :: "event \<Rightarrow> bool" where
  "is_stats (Sess_stats_recv _) = True"
| "is_stats _ = False"

text \<open>The phase acknowledgement is a read of \<open>-1\<close>.\<close>

fun is_ack :: "event \<Rightarrow> bool" where
  "is_ack (Io_read_int x) = (x = Some (- 1))"
| "is_ack _ = False"

text \<open>The calls on the two streams, those of the uploader and the downloader apart.\<close>

fun is_wire :: "event \<Rightarrow> bool" where
  "is_wire (Io_write_int _ _) = True"
| "is_wire (Flist_recv _) = True"
| "is_wire (Io_read_int _) = True"
| "is_wire (Sess_stats_recv _) = True"
| "is_wire _ = False"

fun is_flist_recv :: "event \<Rightarrow> bool" where
  "is_flist_recv (Flist_recv _) = True"
| "is_flist_recv _ = False"

fun is_poll :: "event \<Rightarrow> bool" where
  "is_poll (Poll _ _) = True"
| "is_poll _ = False"

text \<open>The calls that change the file system or the process's file-creation mask, and the
  two halves of the transfer.\<close>

fun is_mutation :: "event \<Rightarrow> bool" where
  "is_mutation (Mkpath _) = True"
| "is_mutation Umask = True"
| "is_mutation (Flist_del _) = True"
| "is_mutation (Rsync_uploader _) = True"
| "is_mutation (Rsync_downloader _) = True"
| "is_mutation (Utimensat _ _) = True"
| "is_mutation (Fchmodat _ _) = True"
| "is_mutation _ = False"

text \<open>The entry a metadata call is made on.\<close>

fun meta_entry :: "event \<Rightarrow> nat option" where
  "meta_entry (Utimensat k _) = Some k"
| "meta_entry (Fchmodat k _) = Some k"
| "meta_entry _ = None"

text \<open>The entries that were fixed up, in the order of the calls, and how many entries
  a fix-up was attempted on.\<close>

definition fixed_up :: "event list \<Rightarrow> nat list" where
  "fixed_up t = List.map_filter meta_entry t"

definition attempts :: "event list \<Rightarrow> nat" where
  "attempts t = card (set (fixed_up t))"

definition is_dir :: "flist \<Rightarrow> bool" where
  "is_dir f = S_ISDIR (mode (st f))"

text \<open>The process is the top-level driver when it is not the server-side helper: the
  statistics of line 347 and the early exit of line 132 are the top-level driver's.\<close>

definition top_level :: "sess \<Rightarrow> bool" where
  "top_level s = (\<not> server (opts s))"

text \<open>The state in which a session reaches the post-processing of line 320, if it does.\<close>

definition at_post_process :: "sess \<Rightarrow> env \<Rightarrow> (flist list \<times> int \<times> lstate) option" where
  "at_post_process s e =
    (case snd (recv_list s e) of
       Go fl \<Rightarrow>
         (case snd (prepare s e (length fl)) of
            Go (dfd, nd) \<Rightarrow>
              (case snd (transfer_loop s (length fl) dfd
                      \<lparr>cursor = 0, pfd1_fd = - 1, newdir = nd, phase = 0\<rparr> (polls e)) of
                 Go v \<Rightarrow> Some (fl, dfd, v)
               | _ \<Rightarrow> None)
          | _ \<Rightarrow> None)
     | _ \<Rightarrow> None)"

text \<open>\<open>c\<close> names something below the directory \<open>p\<close>.\<close>

definition below :: "string \<Rightarrow> string \<Rightarrow> bool" where
  "below c p = (length p < length c \<and> take (Suc (length p)) c = p @ ''/'')"

text \<open>Post-order over the entries \<open>ks\<close> in the order they were fixed up: once an entry
  has been fixed up, nothing below it is fixed up later.\<close>

fun post_order :: "flist list \<Rightarrow> nat list \<Rightarrow> bool" where
  "post_order fl [] = True"
| "post_order fl (k # ks) =
    (list_all (\<lambda>j. \<not> below (path (fl ! j)) (path (fl ! k))) ks \<and> post_order fl ks)"

text \<open>The wait policy in the words of the specification (section 4.2).\<close>

definition timeo_spec :: "nat \<Rightarrow> nat \<Rightarrow> int \<Rightarrow> int" where
  "timeo_spec i flsz fd1 =
    (if i = flsz \<and> fd1 = - 1 then INFTIM
     else if fd1 \<noteq> - 1 then INFTIM
     else 0)"

text \<open>The events each part of the function can produce.\<close>

fun in_recv :: "event \<Rightarrow> bool" where
  "in_recv (Pledge _) = True"
| "in_recv (Io_write_int x _) = (x = 0)"
| "in_recv (Flist_recv _) = True"
| "in_recv (Io_read_int _) = True"
| "in_recv (Log _ _) = True"
| "in_recv _ = False"

fun in_prepare :: "event \<Rightarrow> bool" where
  "in_prepare (Strdup _) = True"
| "in_prepare (Mkpath _) = True"
| "in_prepare Umask = True"
| "in_prepare (Open_root _) = True"
| "in_prepare (Flist_gen_local _) = True"
| "in_prepare (Unveil _) = True"
| "in_prepare (Unveil_lock _) = True"
| "in_prepare (Flist_del _) = True"
| "in_prepare (Calloc _) = True"
| "in_prepare (Close _) = True"
| "in_prepare (Log _ _) = True"
| "in_prepare _ = False"

fun in_loop :: "event \<Rightarrow> bool" where
  "in_loop (Poll _ _) = True"
| "in_loop (Rsync_uploader _) = True"
| "in_loop (Io_read_flush _) = True"
| "in_loop (Rsync_downloader _) = True"
| "in_loop (Close _) = True"
| "in_loop (Log _ _) = True"
| "in_loop _ = False"

fun in_fixup :: "event \<Rightarrow> bool" where
  "in_fixup (Utimensat _ _) = True"
| "in_fixup (Fchmodat _ _) = True"
| "in_fixup (Close _) = True"
| "in_fixup (Log _ _) = True"
| "in_fixup _ = False"

fun in_closing :: "event \<Rightarrow> bool" where
  "in_closing (Io_write_int x _) = (x = - 1)"
| "in_closing (Io_read_int _) = True"
| "in_closing (Sess_stats_recv _) = True"
| "in_closing (Close _) = True"
| "in_closing (Log _ _) = True"
| "in_closing _ = False"

subsection \<open>Sessions to run\<close>

definition dir_a :: flist where
  "dir_a = \<lparr>path = ''a'', st = \<lparr>mode = 0x41ED, mtime = 1000\<rparr>\<rparr>"

definition dir_ab :: flist where
  "dir_ab = \<lparr>path = ''a/b'', st = \<lparr>mode = 0x41ED, mtime = 1000\<rparr>\<rparr>"

definition file_abc :: flist where
  "file_abc = \<lparr>path = ''a/b/c.txt'', st = \<lparr>mode = 0x81A4, mtime = 1000\<rparr>\<rparr>"

definition opts_all :: opts where
  "opts_all = \<lparr>server = False, recursive = True, dry_run = False,
     preserve_times = True, preserve_perms = True, del = True\<rparr>"

definition client :: sess where
  "client = \<lparr>opts = opts_all, mplex_reads = False\<rparr>"

definition client_dry :: sess where
  "client_dry = \<lparr>opts = opts_all\<lparr>dry_run := True\<rparr>, mplex_reads = False\<rparr>"

definition client_plain :: sess where
  "client_plain = \<lparr>opts = opts_all\<lparr>preserve_times := False, preserve_perms := False\<rparr>,
     mplex_reads = False\<rparr>"

definition helper :: sess where
  "helper = \<lparr>opts = opts_all\<lparr>server := True\<rparr>, mplex_reads = True\<rparr>"

text \<open>One turn in which the uploader examines every entry and the downloader reports the
  end of phase 1.\<close>

definition last_turn :: turn where
  "last_turn = \<lparr>poll_ok = True, revents0 = {POLLIN}, revents1 = {},
     up_c = 1, up_i = 3, up_fd = - 1, up_newdir = [(0, 1)],
     flush_ok = True, flush_remain = 4, dl_c = 0\<rparr>"

text \<open>An environment in which every call succeeds.\<close>

definition fine :: env where
  "fine = \<lparr>pledge_ok = True, wr_preamble = True,
     flist_recv = Some [dir_a, dir_ab, file_abc], rd_ioerror = Some 0,
     strdup_ok = True, mkpath_ok = True, open_ret = 3,
     gen_local_ok = True, gen_local_dfl = Some [file_abc],
     unveil_ok = True, unveil_lock_ok = True, flist_del_ok = True, calloc_ok = True,
     polls = [last_turn],
     utimensat_ok = (\<lambda>_. True), fchmodat_ok = (\<lambda>_. True),
     wr_phase = True, rd_ack = Some (- 1), stats_recv_ok = True, wr_goodbye = True\<rparr>"

definition empty_list :: env where
  "empty_list = fine\<lparr>flist_recv := Some []\<rparr>"

definition bad_status :: env where
  "bad_status = fine\<lparr>rd_ioerror := Some 5\<rparr>"

section \<open>Properties\<close>

subsection \<open>Traces of the parts\<close>

lemma fst_emit [simp]: "fst (emit evs k) = evs @ fst k"
  by (simp add: emit_def)

lemma snd_emit [simp]: "snd (emit evs k) = snd k"
  by (simp add: emit_def)

lemma fst_goto_out [simp]:
  "fst (goto_out dfd rc evs) = evs @ (if dfd \<noteq> - 1 then [Close dfd] else [])"
  by (simp add: goto_out_def)

lemma snd_goto_out [simp]: "snd (goto_out dfd rc evs) = Ret rc"
  by (simp add: goto_out_def)

lemma fst_bind:
  "fst (bind m f) = fst m @ (case snd m of Go x \<Rightarrow> fst (f x) | _ \<Rightarrow> [])"
  by (cases m; cases "snd m") auto

lemma snd_bind:
  "snd (bind m f) =
    (case snd m of Go x \<Rightarrow> snd (f x) | Ret rc \<Rightarrow> Ret rc | Abort \<Rightarrow> Abort | Wait \<Rightarrow> Wait)"
  by (cases m; cases "snd m") auto

lemma bind_all:
  assumes "list_all P (fst m)" and "\<And>x. snd m = Go x \<Longrightarrow> list_all P (fst (f x))"
  shows "list_all P (fst (bind m f))"
  using assms by (cases m; cases "snd m") auto

lemma never_after_append:
  "never_after P Q (xs @ ys) =
    (never_after P Q xs \<and> never_after P Q ys \<and> (list_ex Q xs \<longrightarrow> \<not> list_ex P ys))"
  by (induction xs) auto

lemma never_after_no_P: "\<not> list_ex P xs \<Longrightarrow> never_after P Q xs"
  by (induction xs) auto

lemma never_after_no_Q: "\<not> list_ex Q xs \<Longrightarrow> never_after P Q xs"
  by (induction xs) auto

lemma none_of_class:
  assumes "list_all C xs" and "\<And>x. C x \<Longrightarrow> \<not> P x"
  shows "\<not> list_ex P xs"
  using assms by (auto simp: list_all_iff list_ex_iff)

lemma recv_list_events: "list_all in_recv (fst (recv_list s e))"
  by (simp add: recv_list_def split: option.splits)

lemma mk_destination_events: "list_all in_prepare (fst (mk_destination s e))"
  by (simp add: mk_destination_def)

lemma open_destination_events: "list_all in_prepare (fst (open_destination s e))"
  by (simp add: open_destination_def)

lemma gen_local_events: "list_all in_prepare (fst (gen_local s e dfd))"
  by (simp add: gen_local_def)

lemma sandbox_events: "list_all in_prepare (fst (sandbox e dfd))"
  by (simp add: sandbox_def)

lemma deletion_events: "list_all in_prepare (fst (deletion e dfd dfl))"
  by (simp add: deletion_def)

lemma alloc_newdir_events: "list_all in_prepare (fst (alloc_newdir e dfd n))"
  by (simp add: alloc_newdir_def)

lemma prepare_events: "list_all in_prepare (fst (prepare s e n))"
  unfolding prepare_def
  by (simp add: bind_all mk_destination_events open_destination_events gen_local_events
      sandbox_events deletion_events alloc_newdir_events)

lemma download_turn_events: "list_all in_loop (fst (download_turn s dfd r v))"
  by (simp add: download_turn_def)

lemma loop_body_events: "list_all in_loop (fst (loop_body s flsz dfd r v))"
  by (simp add: loop_body_def download_turn_events)

lemma transfer_loop_events: "list_all in_loop (fst (transfer_loop s flsz dfd v rs))"
proof (induction rs arbitrary: v)
  case Nil
  show ?case by simp
next
  case (Cons r rs)
  show ?case
    by (auto intro!: bind_all simp: loop_body_events Cons split: sum.splits)
qed

lemma post_dir_events: "list_all in_fixup (fst (post_dir s e k nd))"
  by (simp add: post_dir_def Let_def)

lemma fixup_from_events: "list_all in_fixup (fst (fixup_from s e dfd nd k fl))"
  by (induction fl arbitrary: k) (simp_all add: post_dir_events)

lemma fixup_events: "list_all in_fixup (fst (fixup s e dfd nd fl))"
  by (simp add: fixup_def fixup_from_events)

lemma handshake_events: "list_all in_closing (fst (handshake e dfd ph))"
  by (simp add: handshake_def split: option.splits)

lemma stats_events: "list_all in_closing (fst (stats s e dfd))"
  by (simp add: stats_def)

lemma goodbye_events: "list_all in_closing (fst (goodbye e dfd))"
  by (simp add: goodbye_def)

lemma close_out_events: "list_all in_closing (fst (close_out s e dfd ph))"
  unfolding close_out_def
  by (simp add: bind_all handshake_events stats_events goodbye_events)

subsection \<open>The flow of the parts and of the session\<close>

lemma download_turn_phase:
  assumes "phase v = 0"
  shows "snd (download_turn s dfd r v) \<noteq> Abort"
    and "snd (download_turn s dfd r v) = Go (Inl v') \<Longrightarrow> phase v' = 0"
    and "snd (download_turn s dfd r v) = Go (Inr v') \<Longrightarrow> phase v' = 1"
  using assms by (auto simp: download_turn_def split: if_splits)

lemma loop_body_phase:
  assumes "phase v = 0"
  shows "snd (loop_body s flsz dfd r v) \<noteq> Abort"
    and "snd (loop_body s flsz dfd r v) = Go (Inl v') \<Longrightarrow> phase v' = 0"
    and "snd (loop_body s flsz dfd r v) = Go (Inr v') \<Longrightarrow> phase v' = 1"
proof -
  have u: "phase (after_uploader r v) = 0"
    using assms by (simp add: after_uploader_def)
  show "snd (loop_body s flsz dfd r v) \<noteq> Abort"
    using download_turn_phase(1)[OF assms] download_turn_phase(1)[OF u]
    by (simp add: loop_body_def)
  show "snd (loop_body s flsz dfd r v) = Go (Inl v') \<Longrightarrow> phase v' = 0"
    by (auto simp: loop_body_def split: if_splits
        dest: download_turn_phase(2)[OF assms] download_turn_phase(2)[OF u])
  show "snd (loop_body s flsz dfd r v) = Go (Inr v') \<Longrightarrow> phase v' = 1"
    by (auto simp: loop_body_def split: if_splits
        dest: download_turn_phase(3)[OF assms] download_turn_phase(3)[OF u])
qed

lemma transfer_loop_phase:
  "phase v = 0 \<Longrightarrow>
    snd (transfer_loop s flsz dfd v rs) \<noteq> Abort \<and>
    (\<forall>v'. snd (transfer_loop s flsz dfd v rs) = Go v' \<longrightarrow> phase v' = 1)"
proof (induction rs arbitrary: v)
  case Nil
  show ?case by simp
next
  case (Cons r rs)
  show ?case
  proof (cases "snd (loop_body s flsz dfd r v)")
    case (Go x)
    show ?thesis
    proof (cases x)
      case (Inl w)
      have "phase w = 0"
        using loop_body_phase(2)[OF Cons.prems] Go Inl by simp
      then show ?thesis
        using Cons.IH[of w] Go Inl by (simp add: snd_bind)
    next
      case (Inr w)
      have "phase w = 1"
        using loop_body_phase(3)[OF Cons.prems] Go Inr by simp
      then show ?thesis
        using Go Inr by (simp add: snd_bind)
    qed
  next
    case (Ret rc)
    then show ?thesis by (simp add: snd_bind)
  next
    case Abort
    then show ?thesis using loop_body_phase(1)[OF Cons.prems] by simp
  next
    case Wait
    then show ?thesis by (simp add: snd_bind)
  qed
qed

lemma recv_list_flow:
  "snd (recv_list s e) \<noteq> Abort" "snd (recv_list s e) \<noteq> Wait"
  by (simp_all add: recv_list_def split: option.splits)

lemma step_flow_ne:
  "snd (mk_destination s e) \<noteq> Abort" "snd (mk_destination s e) \<noteq> Wait"
  "snd (open_destination s e) \<noteq> Abort" "snd (open_destination s e) \<noteq> Wait"
  "snd (gen_local s e dfd) \<noteq> Abort" "snd (gen_local s e dfd) \<noteq> Wait"
  "snd (sandbox e dfd) \<noteq> Abort" "snd (sandbox e dfd) \<noteq> Wait"
  "snd (deletion e dfd dfl) \<noteq> Abort" "snd (deletion e dfd dfl) \<noteq> Wait"
  "snd (alloc_newdir e dfd n) \<noteq> Abort" "snd (alloc_newdir e dfd n) \<noteq> Wait"
  by (auto simp: mk_destination_def open_destination_def gen_local_def sandbox_def
      deletion_def alloc_newdir_def split: if_splits)

lemma step_flow_ret:
  "snd (mk_destination s e) = Ret rc \<Longrightarrow> rc = 0"
  "snd (open_destination s e) = Ret rc \<Longrightarrow> rc = 0"
  "snd (gen_local s e dfd) = Ret rc \<Longrightarrow> rc = 0"
  "snd (sandbox e dfd) = Ret rc \<Longrightarrow> rc = 0"
  "snd (deletion e dfd dfl) = Ret rc \<Longrightarrow> rc = 0"
  "snd (alloc_newdir e dfd n) = Ret rc \<Longrightarrow> rc = 0"
  by (auto simp: mk_destination_def open_destination_def gen_local_def sandbox_def
      deletion_def alloc_newdir_def split: if_splits)

lemma prepare_flow:
  "snd (prepare s e n) \<noteq> Abort" "snd (prepare s e n) \<noteq> Wait"
  "snd (prepare s e n) = Ret rc \<Longrightarrow> rc = 0"
  unfolding prepare_def
  by (auto simp: snd_bind step_flow_ne split: flow.splits dest: step_flow_ret)

lemma loop_body_ret: "snd (loop_body s flsz dfd r v) = Ret rc \<Longrightarrow> rc = 0"
  by (auto simp: loop_body_def download_turn_def split: if_splits)

lemma transfer_loop_ret: "snd (transfer_loop s flsz dfd v rs) = Ret rc \<Longrightarrow> rc = 0"
proof (induction rs arbitrary: v)
  case Nil
  then show ?case by simp
next
  case (Cons r rs)
  then show ?case
    by (auto simp: snd_bind split: flow.splits sum.splits dest: loop_body_ret)
qed

lemma fixup_from_flow:
  "snd (fixup_from s e dfd nd k fl) = Go () \<or> snd (fixup_from s e dfd nd k fl) = Ret 0"
  by (induction fl arbitrary: k) auto

lemma fixup_flow:
  "snd (fixup s e dfd nd fl) = Go () \<or> snd (fixup s e dfd nd fl) = Ret 0"
  using fixup_from_flow by (simp add: fixup_def)

lemma close_out_flow:
  "snd (close_out s e dfd ph) = Ret 0 \<or> snd (close_out s e dfd ph) = Ret 1"
  by (simp add: close_out_def snd_bind handshake_def stats_def goodbye_def
      split: flow.splits option.splits)

text \<open>The trace of a session is the traces of its five parts, one after the other.\<close>

lemma receiver_trace:
  "\<exists>t2 t3 t4 t5.
     fst (rsync_receiver s e) = fst (recv_list s e) @ t2 @ t3 @ t4 @ t5 \<and>
     snd (rsync_receiver s e) \<noteq> Abort \<and>
     list_all in_loop t3 \<and> list_all in_fixup t4 \<and> list_all in_closing t5 \<and>
     ((t2 = [] \<and> t3 = [] \<and> t4 = [] \<and> t5 = [] \<and> (\<forall>fl. snd (recv_list s e) \<noteq> Go fl)) \<or>
      (\<exists>fl. snd (recv_list s e) = Go fl \<and> t2 = fst (prepare s e (length fl)))) \<and>
     ((t4 = [] \<and> t5 = [] \<and> at_post_process s e = None \<and>
       (snd (rsync_receiver s e) = Ret 1 \<longrightarrow> snd (recv_list s e) = Ret 1)) \<or>
      (\<exists>fl dfd v. at_post_process s e = Some (fl, dfd, v) \<and> phase v = 1 \<and>
         t4 = fst (fixup s e dfd (newdir v) fl) \<and>
         ((t5 = [] \<and> snd (fixup s e dfd (newdir v) fl) = Ret 0 \<and>
           snd (rsync_receiver s e) = Ret 0) \<or>
          (t5 = fst (close_out s e dfd 1) \<and> snd (fixup s e dfd (newdir v) fl) = Go () \<and>
           snd (rsync_receiver s e) = snd (close_out s e dfd 1)))))"
proof -
  have nil: "\<And>P. list_all P ([] :: event list)" by simp
  show ?thesis
  proof (cases "snd (recv_list s e)")
    case (Go fl)
    note g1 = Go
    show ?thesis
    proof (cases "snd (prepare s e (length fl))")
      case (Go p)
      obtain dfd nd where p: "p = (dfd, nd)" by (cases p)
      note g2 = Go[unfolded p]
      let ?loop = "transfer_loop s (length fl) dfd
          \<lparr>cursor = 0, pfd1_fd = - 1, newdir = nd, phase = 0\<rparr> (polls e)"
      show ?thesis
      proof (cases "snd ?loop")
        case (Go v)
        have ph: "phase v = 1"
          using transfer_loop_phase[of "\<lparr>cursor = 0, pfd1_fd = - 1, newdir = nd, phase = 0\<rparr>"
              s "length fl" dfd "polls e"] Go by simp
        have ap: "at_post_process s e = Some (fl, dfd, v)"
          by (simp add: at_post_process_def g1 g2 Go)
        let ?fx = "fixup s e dfd (newdir v) fl"
        from fixup_flow[of s e dfd "newdir v" fl] show ?thesis
        proof
          assume f: "snd ?fx = Go ()"
          have "fst (rsync_receiver s e) =
              fst (recv_list s e) @ fst (prepare s e (length fl)) @ fst ?loop @ fst ?fx @
              fst (close_out s e dfd 1)"
            by (simp add: rsync_receiver_def fst_bind g1 g2 Go ph f)
          moreover have "snd (rsync_receiver s e) = snd (close_out s e dfd 1)"
            by (simp add: rsync_receiver_def snd_bind g1 g2 Go ph f)
          moreover have "snd (close_out s e dfd 1) \<noteq> Abort"
            using close_out_flow[of s e dfd 1] by auto
          ultimately show ?thesis
            by (intro exI[of _ "fst (prepare s e (length fl))"] exI[of _ "fst ?loop"]
                exI[of _ "fst ?fx"] exI[of _ "fst (close_out s e dfd 1)"])
              (simp add: ap ph g1 f transfer_loop_events fixup_events close_out_events)
        next
          assume f: "snd ?fx = Ret 0"
          have "fst (rsync_receiver s e) =
              fst (recv_list s e) @ fst (prepare s e (length fl)) @ fst ?loop @ fst ?fx @ []"
            by (simp add: rsync_receiver_def fst_bind g1 g2 Go ph f)
          moreover have "snd (rsync_receiver s e) = Ret 0"
            by (simp add: rsync_receiver_def snd_bind g1 g2 Go ph f)
          ultimately show ?thesis
            by (intro exI[of _ "fst (prepare s e (length fl))"] exI[of _ "fst ?loop"]
                exI[of _ "fst ?fx"] exI[of _ "[]"])
              (simp add: ap ph g1 f transfer_loop_events fixup_events)
        qed
      next
        case (Ret rc)
        have "fst (rsync_receiver s e) =
            fst (recv_list s e) @ fst (prepare s e (length fl)) @ fst ?loop @ [] @ []"
          by (simp add: rsync_receiver_def fst_bind g1 g2 Ret)
        moreover have "snd (rsync_receiver s e) = Ret 0"
          using transfer_loop_ret[OF Ret] by (simp add: rsync_receiver_def snd_bind g1 g2 Ret)
        moreover have "at_post_process s e = None"
          by (simp add: at_post_process_def g1 g2 Ret)
        ultimately show ?thesis
          by (intro exI[of _ "fst (prepare s e (length fl))"] exI[of _ "fst ?loop"]
              exI[of _ "[]"])
            (simp add: g1 transfer_loop_events)
      next
        case Abort
        then show ?thesis
          using transfer_loop_phase[of "\<lparr>cursor = 0, pfd1_fd = - 1, newdir = nd, phase = 0\<rparr>"
              s "length fl" dfd "polls e"] by simp
      next
        case Wait
        have "fst (rsync_receiver s e) =
            fst (recv_list s e) @ fst (prepare s e (length fl)) @ fst ?loop @ [] @ []"
          by (simp add: rsync_receiver_def fst_bind g1 g2 Wait)
        moreover have "snd (rsync_receiver s e) = Wait"
          by (simp add: rsync_receiver_def snd_bind g1 g2 Wait)
        moreover have "at_post_process s e = None"
          by (simp add: at_post_process_def g1 g2 Wait)
        ultimately show ?thesis
          by (intro exI[of _ "fst (prepare s e (length fl))"] exI[of _ "fst ?loop"]
              exI[of _ "[]"])
            (simp add: g1 transfer_loop_events)
      qed
    next
      case (Ret rc)
      have "fst (rsync_receiver s e) =
          fst (recv_list s e) @ fst (prepare s e (length fl)) @ [] @ [] @ []"
        by (simp add: rsync_receiver_def fst_bind g1 Ret)
      moreover have "snd (rsync_receiver s e) = Ret 0"
        using prepare_flow(3)[OF Ret] by (simp add: rsync_receiver_def snd_bind g1 Ret)
      moreover have "at_post_process s e = None"
        by (simp add: at_post_process_def g1 Ret)
      ultimately show ?thesis
        by (intro exI[of _ "fst (prepare s e (length fl))"] exI[of _ "[]"])
          (simp add: g1)
    next
      case Abort
      then show ?thesis using prepare_flow(1) by simp
    next
      case Wait
      then show ?thesis using prepare_flow(2) by simp
    qed
  next
    case (Ret rc)
    have "fst (rsync_receiver s e) = fst (recv_list s e) @ [] @ [] @ [] @ []"
      by (simp add: rsync_receiver_def fst_bind Ret)
    moreover have "snd (rsync_receiver s e) = Ret rc"
      by (simp add: rsync_receiver_def snd_bind Ret)
    moreover have "at_post_process s e = None"
      by (simp add: at_post_process_def Ret)
    ultimately show ?thesis
      by (intro exI[of _ "[]"]) (simp add: Ret)
  next
    case Abort
    then show ?thesis using recv_list_flow(1) by simp
  next
    case Wait
    then show ?thesis using recv_list_flow(2) by simp
  qed
qed

subsection \<open>The early exits, the wait policy and the phase counter\<close>

lemmas session_defs =
  client_def client_dry_def client_plain_def helper_def opts_all_def fine_def empty_list_def
  bad_status_def last_turn_def dir_a_def dir_ab_def file_abc_def

lemmas receiver_defs =
  rsync_receiver_def recv_list_def prepare_def mk_destination_def open_destination_def
  gen_local_def sandbox_def deletion_def alloc_newdir_def loop_body_def download_turn_def
  after_uploader_def fixup_def post_dir_def close_out_def handshake_def stats_def goodbye_def
  emit_def goto_out_def timeo_def INFTIM_def S_ISDIR_def

lemma in_recv_excludes:
  assumes "in_recv x"
  shows "\<not> is_mutation x" "\<not> is_poll x" "\<not> is_sandbox x" "\<not> is_gen_local x"
    "\<not> is_flist_del x" "\<not> is_sentinel x" "\<not> is_stats x" "\<not> is_dry_suppressed x"
    "meta_entry x = None"
  using assms by (cases x; simp)+

lemma in_prepare_excludes:
  assumes "in_prepare x"
  shows "\<not> is_poll x" "\<not> is_sentinel x" "\<not> is_preamble x" "\<not> is_stats x"
    "\<not> is_flist_recv x" "meta_entry x = None"
  using assms by (cases x; simp)+

lemma in_loop_excludes:
  assumes "in_loop x"
  shows "\<not> is_sandbox x" "\<not> is_gen_local x" "\<not> is_flist_del x" "\<not> is_sentinel x"
    "\<not> is_preamble x" "\<not> is_stats x" "\<not> is_flist_recv x" "\<not> is_dry_suppressed x"
    "meta_entry x = None"
  using assms by (cases x; simp)+

lemma in_fixup_excludes:
  assumes "in_fixup x"
  shows "\<not> is_sandbox x" "\<not> is_gen_local x" "\<not> is_flist_del x" "\<not> is_sentinel x"
    "\<not> is_preamble x" "\<not> is_stats x" "\<not> is_flist_recv x" "\<not> is_poll x"
  using assms by (cases x; simp)+

lemma in_closing_excludes:
  assumes "in_closing x"
  shows "\<not> is_sandbox x" "\<not> is_gen_local x" "\<not> is_flist_del x" "\<not> is_preamble x"
    "\<not> is_flist_recv x" "\<not> is_dry_suppressed x" "\<not> is_poll x" "\<not> is_mutation x"
    "meta_entry x = None"
  using assms by (cases x; simp)+

text \<open>
  C6. If the file list that was received (with its status integer 0) is empty and the
  process is the top-level driver, the session returns success after a warning: its whole
  trace is the pledge, the preamble, the reception of the list and of its status, and the
  warning. The destination is neither created nor opened, nothing is unveiled, the
  transfer loop does not run and no sentinel is written or read.
\<close>

theorem empty_list_top_level:
  assumes "pledge_ok e" and "wr_preamble e" and "flist_recv e = Some []"
    and "rd_ioerror e = Some 0" and "top_level s"
  shows "rsync_receiver s e =
      ([Pledge True, Io_write_int 0 True, Flist_recv True, Io_read_int (Some 0),
        Log WARNX ''receiver has empty file list: exiting''], Ret 1) \<and>
    \<not> list_ex is_dry_suppressed (fst (rsync_receiver s e)) \<and>
    \<not> list_ex is_sandbox (fst (rsync_receiver s e)) \<and>
    \<not> list_ex is_mutation (fst (rsync_receiver s e)) \<and>
    \<not> list_ex is_poll (fst (rsync_receiver s e)) \<and>
    \<not> list_ex is_sentinel (fst (rsync_receiver s e))"
proof -
  have "recv_list s e =
      ([Pledge True, Io_write_int 0 True, Flist_recv True, Io_read_int (Some 0),
        Log WARNX ''receiver has empty file list: exiting''], Ret 1)"
    using assms by (simp add: recv_list_def top_level_def emit_def goto_out_def)
  then have "rsync_receiver s e =
      ([Pledge True, Io_write_int 0 True, Flist_recv True, Io_read_int (Some 0),
        Log WARNX ''receiver has empty file list: exiting''], Ret 1)"
    by (simp add: rsync_receiver_def)
  then show ?thesis by simp
qed

text \<open>
  C7. If the status integer that follows the file list is not 0, the session returns
  failure, and no call that changes the file system is in its trace: no mkpath, no umask,
  no deletion, no uploader or downloader, no metadata call; the transfer loop does not
  run.
\<close>

theorem nonzero_status_fails:
  assumes "rd_ioerror e = Some x" and "x \<noteq> 0"
  shows "snd (rsync_receiver s e) = Ret 0 \<and>
    \<not> list_ex is_mutation (fst (rsync_receiver s e)) \<and>
    \<not> list_ex is_poll (fst (rsync_receiver s e)) \<and>
    fst (rsync_receiver s e) = fst (recv_list s e)"
proof -
  have r: "snd (recv_list s e) = Ret 0"
    using assms by (simp add: recv_list_def split: option.splits)
  have t: "fst (rsync_receiver s e) = fst (recv_list s e)"
    by (simp add: rsync_receiver_def fst_bind r)
  have "\<not> list_ex is_mutation (fst (recv_list s e))"
    by (rule none_of_class[OF recv_list_events]) (simp add: in_recv_excludes)
  moreover have "\<not> list_ex is_poll (fst (recv_list s e))"
    by (rule none_of_class[OF recv_list_events]) (simp add: in_recv_excludes)
  moreover have "snd (rsync_receiver s e) = Ret 0"
    by (simp add: rsync_receiver_def snd_bind r)
  ultimately show ?thesis using t by simp
qed

text \<open>
  C8. The timeout of line 243 is the wait policy of the specification: wait indefinitely
  if the cursor equals the length of the file list and no second descriptor is pending,
  wait indefinitely if a second descriptor is pending, otherwise do not block. Every turn
  of the loop polls once, with this timeout computed from the cursor and the second
  descriptor as they are at the start of the turn.
\<close>

theorem empty_list_top_level_witness:
  "pledge_ok empty_list \<and> wr_preamble empty_list \<and> flist_recv empty_list = Some [] \<and>
   rd_ioerror empty_list = Some 0 \<and> top_level client \<and>
   snd (rsync_receiver client empty_list) = Ret 1 \<and>
   fst (rsync_receiver client empty_list) =
     [Pledge True, Io_write_int 0 True, Flist_recv True, Io_read_int (Some 0),
      Log WARNX ''receiver has empty file list: exiting'']"
proof -
  have h: "pledge_ok empty_list" "wr_preamble empty_list" "flist_recv empty_list = Some []"
    "rd_ioerror empty_list = Some 0" "top_level client"
    by (simp_all add: session_defs top_level_def)
  show ?thesis
    using h empty_list_top_level[OF h] by simp
qed

theorem nonzero_status_fails_witness:
  "rd_ioerror bad_status = Some 5 \<and> (5 :: int32) \<noteq> 0 \<and>
   snd (rsync_receiver client bad_status) = Ret 0 \<and>
   fst (rsync_receiver client bad_status) =
     [Pledge True, Io_write_int 0 True, Flist_recv True, Io_read_int (Some 5),
      Log ERRX1 ''io_error is non-zero'']"
proof -
  have h: "rd_ioerror bad_status = Some 5" "(5 :: int32) \<noteq> 0"
    by (simp_all add: session_defs)
  have "fst (recv_list client bad_status) =
     [Pledge True, Io_write_int 0 True, Flist_recv True, Io_read_int (Some 5),
      Log ERRX1 ''io_error is non-zero'']"
    by (simp add: session_defs recv_list_def)
  then show ?thesis
    using h nonzero_status_fails[OF h, of client] by simp
qed

theorem wait_policy:
  "timeo i flsz fd1 = timeo_spec i flsz fd1 \<and>
   filter is_poll (fst (loop_body s flsz dfd r v)) =
     [Poll (timeo_spec (cursor v) flsz (pfd1_fd v)) (poll_ok r)]"
proof -
  have eq: "\<And>i fd1. timeo i flsz fd1 = timeo_spec i flsz fd1"
    by (auto simp: timeo_def timeo_spec_def)
  have "\<And>w. \<not> list_ex is_poll (fst (download_turn s dfd r w))"
    by (simp add: download_turn_def)
  then have "\<And>w. filter is_poll (fst (download_turn s dfd r w)) = []"
    by (simp add: list_ex_iff filter_empty_conv)
  then have "filter is_poll (fst (loop_body s flsz dfd r v)) =
     [Poll (timeo (cursor v) flsz (pfd1_fd v)) (poll_ok r)]"
    by (simp add: loop_body_def)
  then show ?thesis using eq by simp
qed

text \<open>
  C10. The assertion of line 301 never fails: whenever the downloader returns zero, the
  phase counter is 0. The loop leaves the counter at 0 in every turn that goes on, and a
  loop that ends through the \<open>break\<close> has incremented it once, to 1.
\<close>

theorem phase_assertion_holds:
  "snd (rsync_receiver s e) \<noteq> Abort \<and>
   snd (transfer_loop s flsz dfd \<lparr>cursor = 0, pfd1_fd = - 1, newdir = nd, phase = 0\<rparr> rs)
     \<noteq> Abort \<and>
   (\<forall>v. snd (transfer_loop s flsz dfd
          \<lparr>cursor = 0, pfd1_fd = - 1, newdir = nd, phase = 0\<rparr> rs) = Go v \<longrightarrow> phase v = 1) \<and>
   (\<forall>v r v'. phase v = 0 \<longrightarrow> snd (loop_body s flsz dfd r v) \<noteq> Abort \<and>
      (snd (loop_body s flsz dfd r v) = Go (Inl v') \<longrightarrow> phase v' = 0) \<and>
      (snd (loop_body s flsz dfd r v) = Go (Inr v') \<longrightarrow> phase v' = 1))"
proof -
  have a: "snd (rsync_receiver s e) \<noteq> Abort"
    using receiver_trace[of s e] by (elim exE conjE)
  have b: "phase \<lparr>cursor = 0, pfd1_fd = - 1, newdir = nd, phase = 0\<rparr> = 0"
    by simp
  have c: "\<forall>v r v'. phase v = 0 \<longrightarrow> snd (loop_body s flsz dfd r v) \<noteq> Abort \<and>
      (snd (loop_body s flsz dfd r v) = Go (Inl v') \<longrightarrow> phase v' = 0) \<and>
      (snd (loop_body s flsz dfd r v) = Go (Inr v') \<longrightarrow> phase v' = 1)"
  proof (intro allI impI conjI)
    fix v :: lstate and r v'
    assume p: "phase v = 0"
    show "snd (loop_body s flsz dfd r v) \<noteq> Abort"
      by (rule loop_body_phase(1)[OF p])
    show "snd (loop_body s flsz dfd r v) = Go (Inl v') \<Longrightarrow> phase v' = 0"
      by (rule loop_body_phase(2)[OF p])
    show "snd (loop_body s flsz dfd r v) = Go (Inr v') \<Longrightarrow> phase v' = 1"
      by (rule loop_body_phase(3)[OF p])
  qed
  note t = transfer_loop_phase[OF b, of s flsz dfd rs]
  show ?thesis
    using a conjunct1[OF t] conjunct2[OF t] c by (intro conjI)
qed

theorem wait_policy_witness:
  "timeo 3 3 (- 1) = INFTIM \<and> timeo 1 3 7 = INFTIM \<and> timeo 1 3 (- 1) = 0 \<and>
   timeo_spec 3 3 (- 1) = INFTIM \<and> timeo_spec 1 3 7 = INFTIM \<and> timeo_spec 1 3 (- 1) = 0 \<and>
   filter is_poll (fst (loop_body client 3 3 last_turn
     \<lparr>cursor = 0, pfd1_fd = - 1, newdir = [0, 0, 0], phase = 0\<rparr>)) = [Poll 0 True]"
  using wait_policy[of 3 3 "- 1" client 3 last_turn
      "\<lparr>cursor = 0, pfd1_fd = - 1, newdir = [0, 0, 0], phase = 0\<rparr>"]
    wait_policy[of 1 3 7] wait_policy[of 1 3 "- 1"]
  by (simp add: timeo_spec_def session_defs)

theorem phase_assertion_holds_witness:
  "snd (rsync_receiver client fine) = Ret 1 \<and>
   snd (transfer_loop client 3 3 \<lparr>cursor = 0, pfd1_fd = - 1, newdir = [0, 0, 0], phase = 0\<rparr>
     [last_turn]) = Go \<lparr>cursor = 3, pfd1_fd = - 1, newdir = [1, 0, 0], phase = 1\<rparr>"
proof -
  have "snd (rsync_receiver client fine) = Ret 1"
    by (simp add: session_defs receiver_defs)
  moreover have "snd (transfer_loop client 3 3
      \<lparr>cursor = 0, pfd1_fd = - 1, newdir = [0, 0, 0], phase = 0\<rparr> [last_turn]) =
      Go \<lparr>cursor = 3, pfd1_fd = - 1, newdir = [1, 0, 0], phase = 1\<rparr>"
    by (simp add: session_defs receiver_defs)
  ultimately show ?thesis
    using phase_assertion_holds[of client fine 3 3 "[0, 0, 0]" "[last_turn]"]
    by (intro conjI)
qed

subsection \<open>The order of the calls in a session\<close>

lemma list_ex_append_none:
  "\<not> list_ex P xs \<Longrightarrow> list_ex P (xs @ ys) = list_ex P ys"
  "\<not> list_ex P ys \<Longrightarrow> list_ex P (xs @ ys) = list_ex P xs"
  by auto

lemma never_after_middle:
  assumes "\<not> list_ex P xs" "\<not> list_ex Q xs" "\<not> list_ex P zs" "\<not> list_ex Q zs"
  shows "never_after P Q (xs @ ys @ zs) = never_after P Q ys"
  using assms by (auto simp: never_after_append never_after_no_P)

text \<open>Events that only the preparation produces are in the second part of the trace.\<close>

lemma only_in_prepare:
  assumes "\<forall>x. P x \<longrightarrow> \<not> in_recv x \<and> \<not> in_loop x \<and> \<not> in_fixup x \<and> \<not> in_closing x"
  shows "\<exists>t1 t2 t3. fst (rsync_receiver s e) = t1 @ t2 @ t3 \<and>
     \<not> list_ex P t1 \<and> \<not> list_ex P t3 \<and>
     ((t2 = [] \<and> (\<forall>fl. snd (recv_list s e) \<noteq> Go fl)) \<or>
      (\<exists>fl. snd (recv_list s e) = Go fl \<and> t2 = fst (prepare s e (length fl))))"
proof -
  obtain t2 t3 t4 t5 where
    t: "fst (rsync_receiver s e) = fst (recv_list s e) @ t2 @ t3 @ t4 @ t5"
    and c: "list_all in_loop t3" "list_all in_fixup t4" "list_all in_closing t5"
    and d: "(t2 = [] \<and> t3 = [] \<and> t4 = [] \<and> t5 = [] \<and> (\<forall>fl. snd (recv_list s e) \<noteq> Go fl)) \<or>
      (\<exists>fl. snd (recv_list s e) = Go fl \<and> t2 = fst (prepare s e (length fl)))"
    using receiver_trace[of s e] by (elim exE conjE) (rule that)
  have "\<not> list_ex P (fst (recv_list s e))"
    using assms by (intro none_of_class[OF recv_list_events]) blast
  moreover have "\<not> list_ex P (t3 @ t4 @ t5)"
    using none_of_class[OF c(1), of P] none_of_class[OF c(2), of P]
      none_of_class[OF c(3), of P] assms by auto
  ultimately show ?thesis
    using t d by blast
qed

text \<open>Events that only the list reception produces are in the first part of the trace.\<close>

lemma only_in_recv:
  assumes "\<forall>x. P x \<longrightarrow> \<not> in_prepare x \<and> \<not> in_loop x \<and> \<not> in_fixup x \<and> \<not> in_closing x"
  shows "\<exists>rest. fst (rsync_receiver s e) = fst (recv_list s e) @ rest \<and> \<not> list_ex P rest"
proof -
  obtain t2 t3 t4 t5 where
    t: "fst (rsync_receiver s e) = fst (recv_list s e) @ t2 @ t3 @ t4 @ t5"
    and c: "list_all in_loop t3" "list_all in_fixup t4" "list_all in_closing t5"
    and d: "(t2 = [] \<and> t3 = [] \<and> t4 = [] \<and> t5 = [] \<and> (\<forall>fl. snd (recv_list s e) \<noteq> Go fl)) \<or>
      (\<exists>fl. snd (recv_list s e) = Go fl \<and> t2 = fst (prepare s e (length fl)))"
    using receiver_trace[of s e] by (elim exE conjE) (rule that)
  have "list_all in_prepare t2"
    using d prepare_events by auto
  then have "\<not> list_ex P (t2 @ t3 @ t4 @ t5)"
    using none_of_class[of in_prepare t2 P] none_of_class[OF c(1), of P]
      none_of_class[OF c(2), of P] none_of_class[OF c(3), of P] assms by auto
  then show ?thesis
    using t by blast
qed

lemmas prepare_defs =
  prepare_def mk_destination_def open_destination_def gen_local_def sandbox_def deletion_def
  alloc_newdir_def fst_bind snd_bind

lemma prepare_order:
  "never_after is_gen_local is_sandbox (fst (prepare s e n))"
  "never_after is_sandbox is_flist_del (fst (prepare s e n))"
  "list_ex is_flist_del (fst (prepare s e n)) \<Longrightarrow> list_ex is_lock_down (fst (prepare s e n))"
  "list_ex is_sandbox (fst (prepare s e n)) \<Longrightarrow> del (opts s) \<and> recursive (opts s) \<Longrightarrow>
     list_ex is_gen_local (fst (prepare s e n))"
  "list_ex is_gen_local (fst (prepare s e n)) \<Longrightarrow> del (opts s) \<and> recursive (opts s)"
  by (auto simp: prepare_defs never_after_append split: if_splits)

lemma filter_bind:
  "filter P (fst (bind m f)) =
     filter P (fst m) @ (case snd m of Go x \<Rightarrow> filter P (fst (f x)) | _ \<Rightarrow> [])"
  by (simp add: fst_bind split: flow.splits)

lemma list_ex_bind:
  "list_ex P (fst (bind m f)) =
     (list_ex P (fst m) \<or> (case snd m of Go x \<Rightarrow> list_ex P (fst (f x)) | _ \<Rightarrow> False))"
  by (simp add: fst_bind split: flow.splits)

text \<open>What each step of the preparation contributes to the boundary.\<close>

lemma steps_before_boundary:
  "filter (\<lambda>x. is_sandbox x \<or> is_flist_del x) (fst (mk_destination s e)) = []"
  "filter (\<lambda>x. is_sandbox x \<or> is_flist_del x) (fst (open_destination s e)) = []"
  "filter (\<lambda>x. is_sandbox x \<or> is_flist_del x) (fst (gen_local s e dfd)) = []"
  "filter is_gen_local (fst (mk_destination s e)) = []"
  "filter is_gen_local (fst (open_destination s e)) = []"
  "\<not> list_ex is_flist_del (fst (mk_destination s e))"
  "\<not> list_ex is_flist_del (fst (open_destination s e))"
  "\<not> list_ex is_flist_del (fst (gen_local s e dfd))"
  "\<not> list_ex is_sandbox (fst (mk_destination s e))"
  "\<not> list_ex is_sandbox (fst (open_destination s e))"
  "\<not> list_ex is_sandbox (fst (gen_local s e dfd))"
  by (simp_all add: mk_destination_def open_destination_def gen_local_def)

lemma gen_local_done:
  "snd (gen_local s e dfd) = Go dfl \<Longrightarrow>
     filter is_gen_local (fst (gen_local s e dfd)) =
       (if del (opts s) \<and> recursive (opts s) then [Flist_gen_local True] else [])"
  by (auto simp: gen_local_def split: if_splits)

lemma sandbox_done:
  "snd (sandbox e dfd) = Go u \<Longrightarrow>
     filter (\<lambda>x. is_sandbox x \<or> is_flist_del x) (fst (sandbox e dfd)) =
       [Unveil True, Unveil_lock True]"
  by (auto simp: sandbox_def split: if_splits)

lemma steps_after_boundary:
  "\<not> list_ex is_flist_del (fst (sandbox e dfd))"
  "filter is_gen_local (fst (sandbox e dfd)) = []"
  "filter is_gen_local (fst (deletion e dfd dfl)) = []"
  "filter is_gen_local (fst (alloc_newdir e dfd n)) = []"
  "filter (\<lambda>x. is_sandbox x \<or> is_flist_del x) (fst (alloc_newdir e dfd n)) = []"
  "\<not> list_ex is_flist_del (fst (alloc_newdir e dfd n))"
  "list_ex is_flist_del (fst (deletion e dfd dfl)) \<Longrightarrow>
     filter (\<lambda>x. is_sandbox x \<or> is_flist_del x) (fst (deletion e dfd dfl)) =
       [Flist_del (flist_del_ok e)]"
  by (auto simp: sandbox_def deletion_def alloc_newdir_def split: if_splits)

text \<open>In the preparation, a removal comes only after a successful unveil of the root and
  a successful lock-down, and the boundary is reached only after a successful
  enumeration, if one is asked for.\<close>

lemma prepare_boundary:
  "list_ex is_flist_del (fst (prepare s e n)) \<Longrightarrow>
     filter (\<lambda>x. is_sandbox x \<or> is_flist_del x) (fst (prepare s e n)) =
       [Unveil True, Unveil_lock True, Flist_del (flist_del_ok e)]"
  "list_ex is_sandbox (fst (prepare s e n)) \<Longrightarrow>
     filter is_gen_local (fst (prepare s e n)) =
       (if del (opts s) \<and> recursive (opts s) then [Flist_gen_local True] else [])"
proof -
  define T where "T = (\<lambda>dfd dfl.
     bind (sandbox e dfd) (\<lambda>_.
     bind (deletion e dfd dfl) (\<lambda>_.
     bind (alloc_newdir e dfd n) (\<lambda>newdir.
     ([], Go (dfd, newdir))))))"
  have p: "prepare s e n =
     emit [Log LOG2 ''%s: receiver destination'']
     (bind (mk_destination s e) (\<lambda>_.
      bind (open_destination s e) (\<lambda>dfd.
      bind (gen_local s e dfd) (\<lambda>dfl. T dfd dfl))))"
    by (simp add: prepare_def T_def)
  have t1: "\<And>dfd dfl. list_ex is_flist_del (fst (T dfd dfl)) \<Longrightarrow>
      filter (\<lambda>x. is_sandbox x \<or> is_flist_del x) (fst (T dfd dfl)) =
        [Unveil True, Unveil_lock True, Flist_del (flist_del_ok e)]"
    unfolding T_def
    by (auto simp: filter_bind list_ex_bind steps_after_boundary sandbox_done
        split: flow.splits)
  have t2: "\<And>dfd dfl. filter is_gen_local (fst (T dfd dfl)) = []"
    unfolding T_def
    by (auto simp: filter_bind steps_after_boundary split: flow.splits)
  show "list_ex is_flist_del (fst (prepare s e n)) \<Longrightarrow>
     filter (\<lambda>x. is_sandbox x \<or> is_flist_del x) (fst (prepare s e n)) =
       [Unveil True, Unveil_lock True, Flist_del (flist_del_ok e)]"
    unfolding p
    by (auto simp: filter_bind list_ex_bind steps_before_boundary t1 split: flow.splits)
  show "list_ex is_sandbox (fst (prepare s e n)) \<Longrightarrow>
     filter is_gen_local (fst (prepare s e n)) =
       (if del (opts s) \<and> recursive (opts s) then [Flist_gen_local True] else [])"
    unfolding p
    by (auto simp: filter_bind list_ex_bind steps_before_boundary t2 gen_local_done
        split: flow.splits)
qed

text \<open>A complete session of the top-level driver, every call succeeding.\<close>

lemma trace_client_fine:
  "fst (rsync_receiver client fine) =
    [Pledge True, Io_write_int 0 True, Flist_recv True, Io_read_int (Some 0),
     Log LOG1 ''Transfer starting: %zu files'', Log LOG2 ''%s: receiver destination'',
     Strdup True, Mkpath True, Umask, Open_root 3, Flist_gen_local True, Unveil True,
     Unveil_lock True, Flist_del True, Log LOG2 ''%s: ready for phase 1 data'', Calloc True,
     Poll 0 True, Rsync_uploader 1, Rsync_downloader 0,
     Log LOG2 ''%s: receiver ready for phase 2 data'',
     Utimensat 0 True, Log LOG4 ''%s: updated date'',
     Fchmodat 0 True, Log LOG4 ''%s: updated mode: %o'',
     Utimensat 1 True, Log LOG4 ''%s: updated date'',
     Fchmodat 1 True, Log LOG4 ''%s: updated mode: %o'',
     Io_write_int (- 1) True, Io_read_int (Some (- 1)), Sess_stats_recv True,
     Io_write_int (- 1) True, Log LOG2 ''receiver finished updating'', Close 3]"
  by (simp add: session_defs receiver_defs)

text \<open>
  C1, as amended. The enumeration of the local tree (flist_gen_local), which is called only
  when recursive and delete are both set, is never called after an unveil: in a session
  with both options that reaches the sandbox step, it has been called before, once, and
  it has succeeded. The removal of the local entries (flist_del) is on the other side of
  the boundary: when it is called, the unveil of the root has succeeded, then the
  lock-down has succeeded, each called once, and no unveil follows the removal.
\<close>

theorem enumeration_before_sandbox:
  "never_after is_gen_local is_sandbox (fst (rsync_receiver s e)) \<and>
   never_after is_sandbox is_flist_del (fst (rsync_receiver s e)) \<and>
   (list_ex is_flist_del (fst (rsync_receiver s e)) \<longrightarrow>
      list_ex is_lock_down (fst (rsync_receiver s e))) \<and>
   (list_ex is_sandbox (fst (rsync_receiver s e)) \<and> del (opts s) \<and> recursive (opts s) \<longrightarrow>
      list_ex is_gen_local (fst (rsync_receiver s e))) \<and>
   (list_ex is_gen_local (fst (rsync_receiver s e)) \<longrightarrow> del (opts s) \<and> recursive (opts s)) \<and>
   (list_ex is_flist_del (fst (rsync_receiver s e)) \<longrightarrow>
      filter (\<lambda>x. is_sandbox x \<or> is_flist_del x) (fst (rsync_receiver s e)) =
        [Unveil True, Unveil_lock True, Flist_del (flist_del_ok e)]) \<and>
   (list_ex is_sandbox (fst (rsync_receiver s e)) \<longrightarrow>
      filter is_gen_local (fst (rsync_receiver s e)) =
        (if del (opts s) \<and> recursive (opts s) then [Flist_gen_local True] else []))"
proof -
  let ?P = "\<lambda>x. is_gen_local x \<or> is_sandbox x \<or> is_flist_del x"
  have ex: "\<forall>x. ?P x \<longrightarrow> \<not> in_recv x \<and> \<not> in_loop x \<and> \<not> in_fixup x \<and> \<not> in_closing x"
  proof (intro allI impI)
    fix x
    show "?P x \<Longrightarrow> \<not> in_recv x \<and> \<not> in_loop x \<and> \<not> in_fixup x \<and> \<not> in_closing x"
      by (cases x) simp_all
  qed
  obtain t1 t2 t3 where
    t: "fst (rsync_receiver s e) = t1 @ t2 @ t3"
    and n: "\<not> list_ex ?P t1" "\<not> list_ex ?P t3"
    and d: "(t2 = [] \<and> (\<forall>fl. snd (recv_list s e) \<noteq> Go fl)) \<or>
      (\<exists>fl. snd (recv_list s e) = Go fl \<and> t2 = fst (prepare s e (length fl)))"
    using only_in_prepare[OF ex, of s e] by (elim exE conjE) (rule that)
  have n1: "\<not> list_ex is_gen_local t1" "\<not> list_ex is_sandbox t1" "\<not> list_ex is_flist_del t1"
    using n(1) by (auto simp: list_ex_iff)
  have n3: "\<not> list_ex is_gen_local t3" "\<not> list_ex is_sandbox t3" "\<not> list_ex is_flist_del t3"
    using n(2) by (auto simp: list_ex_iff)
  have a: "never_after is_gen_local is_sandbox (t1 @ t2 @ t3) =
      never_after is_gen_local is_sandbox t2"
    by (rule never_after_middle[OF n1(1) n1(2) n3(1) n3(2)])
  have b: "never_after is_sandbox is_flist_del (t1 @ t2 @ t3) =
      never_after is_sandbox is_flist_del t2"
    by (rule never_after_middle[OF n1(2) n1(3) n3(2) n3(3)])
  have c: "list_ex is_gen_local (t1 @ t2 @ t3) = list_ex is_gen_local t2"
    "list_ex is_sandbox (t1 @ t2 @ t3) = list_ex is_sandbox t2"
    "list_ex is_flist_del (t1 @ t2 @ t3) = list_ex is_flist_del t2"
    using n1 n3 by (simp_all add: list_ex_append_none)
  have l: "list_ex is_lock_down t2 \<Longrightarrow> list_ex is_lock_down (t1 @ t2 @ t3)"
    by auto
  have g: "filter (\<lambda>x. is_sandbox x \<or> is_flist_del x) (t1 @ t2 @ t3) =
      filter (\<lambda>x. is_sandbox x \<or> is_flist_del x) t2"
    "filter is_gen_local (t1 @ t2 @ t3) = filter is_gen_local t2"
    using n1 n3 by (simp_all add: list_ex_iff filter_empty_conv)
  from d show ?thesis
  proof
    assume "t2 = [] \<and> (\<forall>fl. snd (recv_list s e) \<noteq> Go fl)"
    then show ?thesis
      unfolding t a b c g by simp
  next
    assume "\<exists>fl. snd (recv_list s e) = Go fl \<and> t2 = fst (prepare s e (length fl))"
    then obtain fl :: "flist list" where p: "t2 = fst (prepare s e (length fl))" by blast
    have old: "never_after is_gen_local is_sandbox t2"
      "never_after is_sandbox is_flist_del t2"
      "list_ex is_flist_del t2 \<longrightarrow> list_ex is_lock_down (t1 @ t2 @ t3)"
      "list_ex is_sandbox t2 \<and> del (opts s) \<and> recursive (opts s) \<longrightarrow> list_ex is_gen_local t2"
      "list_ex is_gen_local t2 \<longrightarrow> del (opts s) \<and> recursive (opts s)"
      using prepare_order[of s e "length fl"] l unfolding p by blast+
    have new: "list_ex is_flist_del t2 \<longrightarrow>
        filter (\<lambda>x. is_sandbox x \<or> is_flist_del x) t2 =
          [Unveil True, Unveil_lock True, Flist_del (flist_del_ok e)]"
      "list_ex is_sandbox t2 \<longrightarrow>
        filter is_gen_local t2 =
          (if del (opts s) \<and> recursive (opts s) then [Flist_gen_local True] else [])"
      using prepare_boundary[of s e "length fl"] unfolding p by blast+
    show ?thesis
      unfolding t a b c g
      using old new by (intro conjI)
  qed
qed

theorem enumeration_before_sandbox_witness:
  "del (opts client) \<and> recursive (opts client) \<and>
   filter (\<lambda>x. is_deleter x \<or> is_sandbox x) (fst (rsync_receiver client fine)) =
     [Flist_gen_local True, Unveil True, Unveil_lock True, Flist_del True] \<and>
   never_after is_gen_local is_sandbox (fst (rsync_receiver client fine)) \<and>
   never_after is_sandbox is_flist_del (fst (rsync_receiver client fine)) \<and>
   list_ex is_flist_del (fst (rsync_receiver client fine)) \<and>
   list_ex is_lock_down (fst (rsync_receiver client fine)) \<and>
   list_ex is_sandbox (fst (rsync_receiver client fine)) \<and>
   list_ex is_gen_local (fst (rsync_receiver client fine)) \<and>
   flist_del_ok fine \<and>
   filter (\<lambda>x. is_sandbox x \<or> is_flist_del x) (fst (rsync_receiver client fine)) =
     [Unveil True, Unveil_lock True, Flist_del True] \<and>
   filter is_gen_local (fst (rsync_receiver client fine)) = [Flist_gen_local True]"
proof -
  have o: "del (opts client)" "recursive (opts client)" "flist_del_ok fine"
    by (simp_all add: session_defs)
  show ?thesis
    using enumeration_before_sandbox[of client fine] o
    by (simp add: trace_client_fine is_deleter_def)
qed

text \<open>
  C1 as it is stated fails: in a session with recursive and delete set, the removal
  (flist_del, line 206) is called after the unveil and the lock-down (lines 195-198), so
  the Deleter pass is not complete before the sandbox boundary is installed.
\<close>

theorem deleter_before_sandbox_counterexample:
  "del (opts client) \<and> recursive (opts client) \<and>
   \<not> never_after is_deleter is_sandbox (fst (rsync_receiver client fine))"
proof -
  have o: "del (opts client)" "recursive (opts client)"
    by (simp_all add: session_defs)
  show ?thesis
    using o by (simp add: trace_client_fine is_deleter_def)
qed

lemma prepare_dry_run:
  "dry_run (opts s) \<Longrightarrow> \<not> list_ex is_dry_suppressed (fst (prepare s e n))"
  by (auto simp: prepare_defs split: if_splits)

lemma prepare_sandbox_dry_run:
  "dry_run (opts s) \<Longrightarrow>
    list_ex is_sandbox (fst (prepare s e n)) =
      (del (opts s) \<and> recursive (opts s) \<longrightarrow> gen_local_ok e)"
  by (auto simp: prepare_defs split: if_splits)

lemma fixup_from_dry_run:
  "dry_run (opts s) \<Longrightarrow> fst (fixup_from s e dfd nd k fl) = []"
  by (induction fl arbitrary: k) (simp_all add: post_dir_def)

lemma fixup_dry_run:
  "dry_run (opts s) \<Longrightarrow> fst (fixup s e dfd nd fl) = []"
  by (simp add: fixup_def fixup_from_dry_run)

lemma recv_list_preamble:
  "list_ex is_preamble (fst (recv_list s e)) = (\<not> server (opts s) \<and> pledge_ok e)"
  "never_after is_preamble is_flist_recv (fst (recv_list s e))"
  "length (filter is_preamble (fst (recv_list s e))) \<le> 1"
  by (auto simp: recv_list_def split: option.splits)

text \<open>A complete session in dry-run mode, every call succeeding.\<close>

lemma trace_client_dry:
  "fst (rsync_receiver client_dry fine) =
    [Pledge True, Io_write_int 0 True, Flist_recv True, Io_read_int (Some 0),
     Log LOG1 ''Transfer starting: %zu files'', Log LOG2 ''%s: receiver destination'',
     Umask, Flist_gen_local True, Unveil True, Unveil_lock True, Flist_del True,
     Log LOG2 ''%s: ready for phase 1 data'', Calloc True,
     Poll 0 True, Rsync_uploader 1, Rsync_downloader 0,
     Log LOG2 ''%s: receiver ready for phase 2 data'',
     Io_write_int (- 1) True, Io_read_int (Some (- 1)), Sess_stats_recv True,
     Io_write_int (- 1) True, Log LOG2 ''receiver finished updating'']"
  by (simp add: session_defs receiver_defs)

text \<open>
  C2, as amended. In dry-run mode the receiver does not create the destination
  (strdup, mkpath), does not open it and makes no metadata call. The sandbox narrowing is
  not among the things dry-run mode suppresses: the unveil of the root is attempted in
  every dry-run session in which the file list is accepted and the local enumeration, if
  there is one, succeeds.
\<close>

theorem dry_run_still_unveils:
  assumes "dry_run (opts s)"
  shows "\<not> list_ex is_dry_suppressed (fst (rsync_receiver s e)) \<and>
    (list_ex is_sandbox (fst (rsync_receiver s e)) \<longleftrightarrow>
       (\<exists>fl. snd (recv_list s e) = Go fl) \<and>
       (del (opts s) \<and> recursive (opts s) \<longrightarrow> gen_local_ok e))"
proof -
  obtain t2 t3 t4 t5 where
    t: "fst (rsync_receiver s e) = fst (recv_list s e) @ t2 @ t3 @ t4 @ t5"
    and c: "list_all in_loop t3" "list_all in_fixup t4" "list_all in_closing t5"
    and d: "(t2 = [] \<and> t3 = [] \<and> t4 = [] \<and> t5 = [] \<and> (\<forall>fl. snd (recv_list s e) \<noteq> Go fl)) \<or>
      (\<exists>fl. snd (recv_list s e) = Go fl \<and> t2 = fst (prepare s e (length fl)))"
    and f: "(t4 = [] \<and> t5 = [] \<and> at_post_process s e = None \<and>
       (snd (rsync_receiver s e) = Ret 1 \<longrightarrow> snd (recv_list s e) = Ret 1)) \<or>
      (\<exists>fl dfd v. at_post_process s e = Some (fl, dfd, v) \<and> phase v = 1 \<and>
         t4 = fst (fixup s e dfd (newdir v) fl) \<and>
         ((t5 = [] \<and> snd (fixup s e dfd (newdir v) fl) = Ret 0 \<and>
           snd (rsync_receiver s e) = Ret 0) \<or>
          (t5 = fst (close_out s e dfd 1) \<and> snd (fixup s e dfd (newdir v) fl) = Go () \<and>
           snd (rsync_receiver s e) = snd (close_out s e dfd 1))))"
    using receiver_trace[of s e] by (elim exE conjE) (rule that)
  have n1: "\<not> list_ex is_dry_suppressed (fst (recv_list s e))"
    "\<not> list_ex is_sandbox (fst (recv_list s e))"
    by (rule none_of_class[OF recv_list_events], simp add: in_recv_excludes)+
  have n3: "\<not> list_ex is_dry_suppressed t3" "\<not> list_ex is_sandbox t3"
    by (rule none_of_class[OF c(1)], simp add: in_loop_excludes)+
  have n5: "\<not> list_ex is_dry_suppressed t5" "\<not> list_ex is_sandbox t5"
    by (rule none_of_class[OF c(3)], simp add: in_closing_excludes)+
  have n4: "\<not> list_ex is_sandbox t4"
    by (rule none_of_class[OF c(2)], simp add: in_fixup_excludes)
  have e4: "t4 = []"
    using f fixup_dry_run[OF assms] by auto
  have n2: "\<not> list_ex is_dry_suppressed t2"
    using d prepare_dry_run[OF assms] by auto
  have s2: "list_ex is_sandbox t2 \<longleftrightarrow>
       (\<exists>fl. snd (recv_list s e) = Go fl) \<and>
       (del (opts s) \<and> recursive (opts s) \<longrightarrow> gen_local_ok e)"
    using d prepare_sandbox_dry_run[OF assms] by auto
  have "\<not> list_ex is_dry_suppressed (fst (rsync_receiver s e))"
    unfolding t using n1(1) n2 n3(1) e4 n5(1) by simp
  moreover have "list_ex is_sandbox (fst (rsync_receiver s e)) = list_ex is_sandbox t2"
    unfolding t using n1(2) n3(2) n4 n5(2) by simp
  ultimately show ?thesis
    using s2 by simp
qed

theorem dry_run_still_unveils_witness:
  "dry_run (opts client_dry) \<and>
   \<not> list_ex is_dry_suppressed (fst (rsync_receiver client_dry fine)) \<and>
   list_ex is_sandbox (fst (rsync_receiver client_dry fine)) \<and>
   snd (recv_list client_dry fine) = Go [dir_a, dir_ab, file_abc] \<and>
   del (opts client_dry) \<and> recursive (opts client_dry) \<and> gen_local_ok fine"
proof -
  have o: "dry_run (opts client_dry)" "del (opts client_dry)" "recursive (opts client_dry)"
    "gen_local_ok fine" "snd (recv_list client_dry fine) = Go [dir_a, dir_ab, file_abc]"
    by (simp_all add: recv_list_def client_dry_def opts_all_def fine_def)
  show ?thesis
    using dry_run_still_unveils[OF o(1), of fine] o
    by (simp add: trace_client_dry)
qed

text \<open>
  C2 as it is stated fails: a dry-run session calls unveil on the root and locks down
  (lines 195-198 have no test of \<open>dry_run\<close>).
\<close>

theorem dry_run_no_unveil_counterexample:
  "dry_run (opts client_dry) \<and> list_ex is_sandbox (fst (rsync_receiver client_dry fine))"
proof -
  have "dry_run (opts client_dry)"
    by (simp add: session_defs)
  then show ?thesis
    by (simp add: trace_client_dry)
qed

text \<open>
  C5, as amended. The zero preamble is written only when the process is the top-level
  driver (\<open>server\<close> is not set), as the first call after the pledge: it is written at
  most once, and never after the file list has been received.
\<close>

theorem preamble_of_top_level:
  "(list_ex is_preamble (fst (rsync_receiver s e)) \<longleftrightarrow> top_level s \<and> pledge_ok e) \<and>
   never_after is_preamble is_flist_recv (fst (rsync_receiver s e)) \<and>
   length (filter is_preamble (fst (rsync_receiver s e))) \<le> 1"
proof -
  let ?P = "\<lambda>x. is_preamble x \<or> is_flist_recv x"
  have ex: "\<forall>x. ?P x \<longrightarrow> \<not> in_prepare x \<and> \<not> in_loop x \<and> \<not> in_fixup x \<and> \<not> in_closing x"
  proof (intro allI impI)
    fix x
    show "?P x \<Longrightarrow> \<not> in_prepare x \<and> \<not> in_loop x \<and> \<not> in_fixup x \<and> \<not> in_closing x"
      by (cases x) auto
  qed
  obtain rest where
    t: "fst (rsync_receiver s e) = fst (recv_list s e) @ rest"
    and n: "\<not> list_ex ?P rest"
    using only_in_recv[OF ex, of s e] by (elim exE conjE) (rule that)
  have r: "\<not> list_ex is_preamble rest" "\<not> list_ex is_flist_recv rest"
    using n by (auto simp: list_ex_iff)
  have f: "filter is_preamble rest = []"
    using r(1) by (simp add: list_ex_iff filter_empty_conv)
  show ?thesis
    unfolding t
    using recv_list_preamble[of s e] r f
    by (simp add: never_after_append never_after_no_P top_level_def)
qed

theorem preamble_of_top_level_witness:
  "top_level client \<and> pledge_ok fine \<and>
   list_ex is_preamble (fst (rsync_receiver client fine)) \<and>
   never_after is_preamble is_flist_recv (fst (rsync_receiver client fine)) \<and>
   length (filter is_preamble (fst (rsync_receiver client fine))) = 1"
proof -
  have o: "top_level client" "pledge_ok fine"
    by (simp_all add: session_defs top_level_def)
  show ?thesis
    using preamble_of_top_level[of client fine] o
    by (simp add: trace_client_fine)
qed

text \<open>
  C5 as it is stated fails: the top-level driver writes the preamble (line 110 tests
  \<open>! sess->opts->server\<close>), and the server-side helper does not.
\<close>

theorem preamble_helper_only_counterexample:
  "top_level client \<and> list_ex is_preamble (fst (rsync_receiver client fine)) \<and>
   \<not> top_level helper \<and> pledge_ok fine \<and>
   \<not> list_ex is_preamble (fst (rsync_receiver helper fine))"
proof -
  have o: "top_level client" "\<not> top_level helper" "pledge_ok fine"
    by (simp_all add: session_defs top_level_def)
  have "\<not> list_ex is_preamble (fst (rsync_receiver helper fine))"
    by (simp add: session_defs receiver_defs)
  then show ?thesis
    using o by (simp add: trace_client_fine)
qed

lemma not_wire:
  "in_prepare x \<Longrightarrow> \<not> is_wire x" "in_loop x \<Longrightarrow> \<not> is_wire x" "in_fixup x \<Longrightarrow> \<not> is_wire x"
  by (cases x; simp)+

lemma filter_none: "\<not> list_ex P xs \<Longrightarrow> filter P xs = []"
  by (simp add: list_ex_iff filter_empty_conv)

lemmas close_out_defs = close_out_def handshake_def stats_def goodbye_def fst_bind snd_bind

lemma close_out_sentinels:
  "length (filter is_sentinel (fst (close_out s e dfd 1))) \<le> 2"
  "\<not> list_ex is_stats (takeWhile (\<lambda>x. \<not> is_sentinel x) (fst (close_out s e dfd 1)))"
  "\<not> list_ex is_sentinel (takeWhile (\<lambda>x. \<not> is_ack x)
      (tl (dropWhile (\<lambda>x. \<not> is_sentinel x) (fst (close_out s e dfd 1)))))"
  by (auto simp: close_out_defs split: option.splits if_splits)

lemma close_out_success:
  "snd (close_out s e dfd 1) = Ret 1 \<Longrightarrow>
    filter is_wire (fst (close_out s e dfd 1)) =
      [Io_write_int (- 1) True, Io_read_int (Some (- 1))] @
      (if server (opts s) then [] else [Sess_stats_recv True]) @ [Io_write_int (- 1) True]"
  by (auto simp: close_out_defs split: option.splits if_splits)

lemma recv_list_success:
  "snd (recv_list s e) = Go fl \<Longrightarrow>
    filter is_wire (fst (recv_list s e)) =
      (if server (opts s) then [] else [Io_write_int 0 True]) @
      [Flist_recv True, Io_read_int (Some 0)]"
  by (auto simp: recv_list_def split: option.splits if_splits)

text \<open>
  C3, as amended. A session that returns success, other than through the early exit for
  an empty file list, has on its streams exactly: the preamble (top-level only), the file
  list, the status integer, one phase-end sentinel, the phase acknowledgement, the
  statistics (top-level only), one goodbye sentinel, in this order. In every session, at
  most two sentinels are written, the statistics are not requested before a sentinel has
  been written, and after the first sentinel no other is written before the
  acknowledgement has been read.
\<close>

theorem sentinels_in_order:
  "(snd (rsync_receiver s e) = Ret 1 \<and> snd (recv_list s e) \<noteq> Ret 1 \<longrightarrow>
      filter is_wire (fst (rsync_receiver s e)) =
        (if top_level s then [Io_write_int 0 True] else []) @
        [Flist_recv True, Io_read_int (Some 0),
         Io_write_int (- 1) True, Io_read_int (Some (- 1))] @
        (if top_level s then [Sess_stats_recv True] else []) @
        [Io_write_int (- 1) True]) \<and>
   length (filter is_sentinel (fst (rsync_receiver s e))) \<le> 2 \<and>
   \<not> list_ex is_stats (takeWhile (\<lambda>x. \<not> is_sentinel x) (fst (rsync_receiver s e))) \<and>
   \<not> list_ex is_sentinel (takeWhile (\<lambda>x. \<not> is_ack x)
       (tl (dropWhile (\<lambda>x. \<not> is_sentinel x) (fst (rsync_receiver s e)))))"
proof -
  obtain t2 t3 t4 t5 where
    t: "fst (rsync_receiver s e) = fst (recv_list s e) @ t2 @ t3 @ t4 @ t5"
    and c: "list_all in_loop t3" "list_all in_fixup t4" "list_all in_closing t5"
    and d: "(t2 = [] \<and> t3 = [] \<and> t4 = [] \<and> t5 = [] \<and> (\<forall>fl. snd (recv_list s e) \<noteq> Go fl)) \<or>
      (\<exists>fl. snd (recv_list s e) = Go fl \<and> t2 = fst (prepare s e (length fl)))"
    and f: "(t4 = [] \<and> t5 = [] \<and> at_post_process s e = None \<and>
       (snd (rsync_receiver s e) = Ret 1 \<longrightarrow> snd (recv_list s e) = Ret 1)) \<or>
      (\<exists>fl dfd v. at_post_process s e = Some (fl, dfd, v) \<and> phase v = 1 \<and>
         t4 = fst (fixup s e dfd (newdir v) fl) \<and>
         ((t5 = [] \<and> snd (fixup s e dfd (newdir v) fl) = Ret 0 \<and>
           snd (rsync_receiver s e) = Ret 0) \<or>
          (t5 = fst (close_out s e dfd 1) \<and> snd (fixup s e dfd (newdir v) fl) = Go () \<and>
           snd (rsync_receiver s e) = snd (close_out s e dfd 1))))"
    using receiver_trace[of s e] by (elim exE conjE) (rule that)
  have c2: "list_all in_prepare t2"
    using d prepare_events by auto
  let ?pre = "fst (recv_list s e) @ t2 @ t3 @ t4"
  have tp: "fst (rsync_receiver s e) = ?pre @ t5"
    by (simp add: t)
  have ns: "\<forall>x\<in>set ?pre. \<not> is_sentinel x"
    using recv_list_events[of s e] c2 c(1) c(2)
    by (auto simp: list_all_iff in_recv_excludes in_prepare_excludes in_loop_excludes
        in_fixup_excludes)
  have nt: "\<forall>x\<in>set ?pre. \<not> is_stats x"
    using recv_list_events[of s e] c2 c(1) c(2)
    by (auto simp: list_all_iff in_recv_excludes in_prepare_excludes in_loop_excludes
        in_fixup_excludes)
  have tw: "takeWhile (\<lambda>x. \<not> is_sentinel x) (?pre @ t5) =
      ?pre @ takeWhile (\<lambda>x. \<not> is_sentinel x) t5"
    using ns by (intro takeWhile_append2) blast
  have dw: "dropWhile (\<lambda>x. \<not> is_sentinel x) (?pre @ t5) =
      dropWhile (\<lambda>x. \<not> is_sentinel x) t5"
    using ns by (intro dropWhile_append2) blast
  have fs: "filter is_sentinel (?pre @ t5) = filter is_sentinel t5"
    using ns by (simp add: filter_empty_conv)
  have sp: "\<not> list_ex is_stats ?pre"
    using nt by (simp add: list_ex_iff)
  have t5: "t5 = [] \<or> (\<exists>dfd. t5 = fst (close_out s e dfd 1))"
    using f by blast
  have general:
    "length (filter is_sentinel (fst (rsync_receiver s e))) \<le> 2 \<and>
     \<not> list_ex is_stats (takeWhile (\<lambda>x. \<not> is_sentinel x) (fst (rsync_receiver s e))) \<and>
     \<not> list_ex is_sentinel (takeWhile (\<lambda>x. \<not> is_ack x)
        (tl (dropWhile (\<lambda>x. \<not> is_sentinel x) (fst (rsync_receiver s e)))))"
    unfolding tp tw dw fs
    using t5 sp close_out_sentinels[of s e] by auto
  have success: "filter is_wire (fst (rsync_receiver s e)) =
        (if top_level s then [Io_write_int 0 True] else []) @
        [Flist_recv True, Io_read_int (Some 0),
         Io_write_int (- 1) True, Io_read_int (Some (- 1))] @
        (if top_level s then [Sess_stats_recv True] else []) @
        [Io_write_int (- 1) True]"
    if ok: "snd (rsync_receiver s e) = Ret 1" and ne: "snd (recv_list s e) \<noteq> Ret 1"
  proof -
    obtain dfd where c5: "t5 = fst (close_out s e dfd 1)"
      and r5: "snd (close_out s e dfd 1) = Ret 1"
      using f ok ne by auto
    obtain fl dfd' v where "at_post_process s e = Some (fl, dfd', v)"
      using f ok ne by auto
    then have g: "snd (recv_list s e) = Go fl"
      by (auto simp: at_post_process_def split: flow.splits prod.splits)
    have w: "filter is_wire t2 = []" "filter is_wire t3 = []" "filter is_wire t4 = []"
      using c2 c(1) c(2) by (auto simp: filter_empty_conv list_all_iff not_wire)
    show ?thesis
      unfolding t
      using w recv_list_success[OF g] close_out_success[OF r5] c5
      by (simp add: top_level_def)
  qed
  show ?thesis
    using general success by blast
qed

theorem sentinels_in_order_witness:
  "snd (rsync_receiver client fine) = Ret 1 \<and>
   snd (recv_list client fine) = Go [dir_a, dir_ab, file_abc] \<and> top_level client \<and>
   filter is_wire (fst (rsync_receiver client fine)) =
     [Io_write_int 0 True, Flist_recv True, Io_read_int (Some 0),
      Io_write_int (- 1) True, Io_read_int (Some (- 1)), Sess_stats_recv True,
      Io_write_int (- 1) True] \<and>
   length (filter is_sentinel (fst (rsync_receiver client fine))) = 2"
proof -
  have o: "snd (rsync_receiver client fine) = Ret 1"
    "snd (recv_list client fine) = Go [dir_a, dir_ab, file_abc]" "top_level client"
    by (simp_all add: session_defs receiver_defs top_level_def)
  show ?thesis
    using sentinels_in_order[of client fine] o
    by (simp add: trace_client_fine)
qed

text \<open>
  C3 as it is stated fails: the session of the top-level driver that receives an empty
  file list returns success (line 134) and writes no sentinel at all.
\<close>

theorem no_sentinel_counterexample:
  "snd (rsync_receiver client empty_list) = Ret 1 \<and>
   filter is_sentinel (fst (rsync_receiver client empty_list)) = []"
  by (simp add: session_defs receiver_defs)

subsection \<open>The directory fix-up\<close>

lemma fixed_up_append [simp]: "fixed_up (xs @ ys) = fixed_up xs @ fixed_up ys"
  by (simp add: fixed_up_def List.map_filter_def)

lemma fixed_up_Nil [simp]: "fixed_up [] = []"
  by (simp add: fixed_up_def List.map_filter_def)

lemma fixed_up_Cons [simp]:
  "fixed_up (x # xs) =
    (case meta_entry x of None \<Rightarrow> fixed_up xs | Some k \<Rightarrow> k # fixed_up xs)"
  by (simp add: fixed_up_def List.map_filter_simps split: option.splits)

lemma fixed_up_none:
  assumes "list_all C xs" and "\<forall>x. C x \<longrightarrow> meta_entry x = None"
  shows "fixed_up xs = []"
  using assms by (auto simp: fixed_up_def List.map_filter_def list_all_iff filter_empty_conv)

text \<open>What \<open>post_dir\<close> fixes up: nothing but the entry it is called on, and that entry
  whenever its guards let it through.\<close>

lemma post_dir_fixed_up:
  "set (fixed_up (fst (post_dir s e k nd))) \<subseteq> {k}"
  by (auto simp: post_dir_def Let_def)

lemma post_dir_fixed_up_guard:
  "\<not> recursive (opts s) \<or> dry_run (opts s) \<Longrightarrow> fixed_up (fst (post_dir s e k nd)) = []"
  by (auto simp: post_dir_def)

lemma post_dir_fixed_up_run:
  assumes "recursive (opts s)" "\<not> dry_run (opts s)"
    "preserve_times (opts s) \<or> preserve_perms (opts s)"
  shows "set (fixed_up (fst (post_dir s e k nd))) = {k}"
  using assms by (auto simp: post_dir_def Let_def)

lemma post_dir_ok:
  assumes "utimensat_ok e k" "fchmodat_ok e k"
  shows "snd (post_dir s e k nd) = 1"
  using assms by (auto simp: post_dir_def Let_def)

text \<open>The indices, counted from \<open>k\<close>, of the directories of a list.\<close>

lemma fixup_from_subset:
  "set (fixed_up (fst (fixup_from s e dfd nd k fl))) \<subseteq>
     {k + j | j. j < length fl \<and> is_dir (fl ! j)}"
proof (induction fl arbitrary: k)
  case Nil
  show ?case by simp
next
  case (Cons f fl)
  have step: "{Suc k + j | j. j < length fl \<and> is_dir (fl ! j)} \<subseteq>
      {k + j | j. j < length (f # fl) \<and> is_dir ((f # fl) ! j)}"
  proof
    fix x assume "x \<in> {Suc k + j | j. j < length fl \<and> is_dir (fl ! j)}"
    then obtain j where j: "x = Suc k + j" "j < length fl" "is_dir (fl ! j)" by blast
    then have "x = k + Suc j \<and> Suc j < length (f # fl) \<and> is_dir ((f # fl) ! Suc j)"
      by simp
    then show "x \<in> {k + j | j. j < length (f # fl) \<and> is_dir ((f # fl) ! j)}"
      by blast
  qed
  show ?case
  proof (cases "S_ISDIR (mode (st f))")
    case False
    then show ?thesis
      using Cons.IH[of "Suc k"] step by simp
  next
    case True
    have here: "k \<in> {k + j | j. j < length (f # fl) \<and> is_dir ((f # fl) ! j)}"
      using True by (auto simp: is_dir_def intro: exI[of _ 0])
    show ?thesis
      using True Cons.IH[of "Suc k"] step here post_dir_fixed_up[of s e k "nd ! k"]
      by auto
  qed
qed

lemma fixup_from_all:
  assumes "recursive (opts s)" "\<not> dry_run (opts s)"
    "preserve_times (opts s) \<or> preserve_perms (opts s)"
    "\<forall>j. utimensat_ok e j \<and> fchmodat_ok e j"
  shows "set (fixed_up (fst (fixup_from s e dfd nd k fl))) =
     {k + j | j. j < length fl \<and> is_dir (fl ! j)}"
proof (induction fl arbitrary: k)
  case Nil
  show ?case by simp
next
  case (Cons f fl)
  have shift: "{k + j | j. j < length (f # fl) \<and> is_dir ((f # fl) ! j)} =
      (if is_dir f then {k} else {}) \<union> {Suc k + j | j. j < length fl \<and> is_dir (fl ! j)}"
  proof (intro set_eqI iffI)
    fix x assume "x \<in> {k + j | j. j < length (f # fl) \<and> is_dir ((f # fl) ! j)}"
    then obtain j where j: "x = k + j" "j < length (f # fl)" "is_dir ((f # fl) ! j)" by blast
    show "x \<in> (if is_dir f then {k} else {}) \<union>
        {Suc k + j | j. j < length fl \<and> is_dir (fl ! j)}"
    proof (cases j)
      case 0
      then show ?thesis using j by simp
    next
      case (Suc i)
      then have "x = Suc k + i \<and> i < length fl \<and> is_dir (fl ! i)" using j by simp
      then show ?thesis by blast
    qed
  next
    fix x assume a: "x \<in> (if is_dir f then {k} else {}) \<union>
        {Suc k + j | j. j < length fl \<and> is_dir (fl ! j)}"
    show "x \<in> {k + j | j. j < length (f # fl) \<and> is_dir ((f # fl) ! j)}"
    proof (cases "x = k \<and> is_dir f")
      case True
      then have "x = k + 0 \<and> 0 < length (f # fl) \<and> is_dir ((f # fl) ! 0)" by simp
      then show ?thesis by blast
    next
      case False
      then obtain j where "x = Suc k + j" "j < length fl" "is_dir (fl ! j)"
        using a by (auto split: if_splits)
      then have "x = k + Suc j \<and> Suc j < length (f # fl) \<and> is_dir ((f # fl) ! Suc j)"
        by simp
      then show ?thesis by blast
    qed
  qed
  show ?case
  proof (cases "S_ISDIR (mode (st f))")
    case False
    then show ?thesis
      using Cons.IH[of "Suc k"] shift by (simp add: is_dir_def)
  next
    case True
    have ok: "snd (post_dir s e k (nd ! k)) = 1"
      using assms(4) by (simp add: post_dir_ok)
    show ?thesis
      using True Cons.IH[of "Suc k"] shift ok post_dir_fixed_up_run[OF assms(1-3), of e k "nd ! k"]
      by (simp add: is_dir_def)
  qed
qed

lemma fixup_from_guard:
  "\<not> recursive (opts s) \<or> dry_run (opts s) \<Longrightarrow>
     fixed_up (fst (fixup_from s e dfd nd k fl)) = []"
  by (induction fl arbitrary: k) (auto simp: post_dir_fixed_up_guard)

text \<open>The metadata calls of a session are those of its fix-up, if it gets there.\<close>

lemma receiver_fixed_up:
  "fixed_up (fst (rsync_receiver s e)) =
    (case at_post_process s e of
       None \<Rightarrow> []
     | Some (fl, dfd, v) \<Rightarrow> fixed_up (fst (fixup s e dfd (newdir v) fl)))"
proof -
  obtain t2 t3 t4 t5 where
    t: "fst (rsync_receiver s e) = fst (recv_list s e) @ t2 @ t3 @ t4 @ t5"
    and c: "list_all in_loop t3" "list_all in_fixup t4" "list_all in_closing t5"
    and d: "(t2 = [] \<and> t3 = [] \<and> t4 = [] \<and> t5 = [] \<and> (\<forall>fl. snd (recv_list s e) \<noteq> Go fl)) \<or>
      (\<exists>fl. snd (recv_list s e) = Go fl \<and> t2 = fst (prepare s e (length fl)))"
    and f: "(t4 = [] \<and> t5 = [] \<and> at_post_process s e = None \<and>
       (snd (rsync_receiver s e) = Ret 1 \<longrightarrow> snd (recv_list s e) = Ret 1)) \<or>
      (\<exists>fl dfd v. at_post_process s e = Some (fl, dfd, v) \<and> phase v = 1 \<and>
         t4 = fst (fixup s e dfd (newdir v) fl) \<and>
         ((t5 = [] \<and> snd (fixup s e dfd (newdir v) fl) = Ret 0 \<and>
           snd (rsync_receiver s e) = Ret 0) \<or>
          (t5 = fst (close_out s e dfd 1) \<and> snd (fixup s e dfd (newdir v) fl) = Go () \<and>
           snd (rsync_receiver s e) = snd (close_out s e dfd 1))))"
    using receiver_trace[of s e] by (elim exE conjE) (rule that)
  have c2: "list_all in_prepare t2"
    using d prepare_events by auto
  have z: "fixed_up (fst (recv_list s e)) = []" "fixed_up t2 = []" "fixed_up t3 = []"
    "fixed_up t5 = []"
    using fixed_up_none[OF recv_list_events[of s e]] fixed_up_none[OF c2]
      fixed_up_none[OF c(1)] fixed_up_none[OF c(3)]
    by (simp_all add: in_recv_excludes in_prepare_excludes in_loop_excludes in_closing_excludes)
  have "fixed_up (fst (rsync_receiver s e)) = fixed_up t4"
    by (simp add: t z)
  then show ?thesis
    using f by auto
qed

lemma trace_client_plain:
  "fst (rsync_receiver client_plain fine) =
    [Pledge True, Io_write_int 0 True, Flist_recv True, Io_read_int (Some 0),
     Log LOG1 ''Transfer starting: %zu files'', Log LOG2 ''%s: receiver destination'',
     Strdup True, Mkpath True, Umask, Open_root 3, Flist_gen_local True, Unveil True,
     Unveil_lock True, Flist_del True, Log LOG2 ''%s: ready for phase 1 data'', Calloc True,
     Poll 0 True, Rsync_uploader 1, Rsync_downloader 0,
     Log LOG2 ''%s: receiver ready for phase 2 data'',
     Io_write_int (- 1) True, Io_read_int (Some (- 1)), Sess_stats_recv True,
     Io_write_int (- 1) True, Log LOG2 ''receiver finished updating'', Close 3]"
  by (simp add: session_defs receiver_defs)

lemma post_process_client:
  "at_post_process client fine =
     Some ([dir_a, dir_ab, file_abc], 3,
       \<lparr>cursor = 3, pfd1_fd = - 1, newdir = [1, 0, 0], phase = 1\<rparr>)"
  "at_post_process client_plain fine =
     Some ([dir_a, dir_ab, file_abc], 3,
       \<lparr>cursor = 3, pfd1_fd = - 1, newdir = [1, 0, 0], phase = 1\<rparr>)"
  by (simp_all add: at_post_process_def session_defs receiver_defs)

lemma dirs_of_list: "is_dir dir_a" "is_dir dir_ab" "\<not> is_dir file_abc"
  by (simp_all add: is_dir_def S_ISDIR_def dir_a_def dir_ab_def file_abc_def)

text \<open>
  C9, as amended. In a session that reaches the post-processing, a fix-up is attempted on
  directory entries only, so on no more entries than the file list has directories. None
  is attempted in dry-run mode, without recursion, or when neither the times nor the
  permissions are preserved. With recursion, without dry-run and with one of the two
  preserved, one is attempted on every directory entry, provided no metadata call fails
  (the first failure ends the session).
\<close>

theorem fixup_attempts:
  assumes "at_post_process s e = Some (fl, dfd, v)"
  shows "attempts (fst (rsync_receiver s e)) \<le> length (filter is_dir fl) \<and>
    (dry_run (opts s) \<or> \<not> recursive (opts s) \<or>
       (\<not> preserve_times (opts s) \<and> \<not> preserve_perms (opts s)) \<longrightarrow>
       attempts (fst (rsync_receiver s e)) = 0) \<and>
    (recursive (opts s) \<and> \<not> dry_run (opts s) \<and>
       (preserve_times (opts s) \<or> preserve_perms (opts s)) \<and>
       (\<forall>j. utimensat_ok e j \<and> fchmodat_ok e j) \<longrightarrow>
       attempts (fst (rsync_receiver s e)) = length (filter is_dir fl))"
proof -
  let ?nd = "newdir v"
  have fx: "fixed_up (fst (rsync_receiver s e)) = fixed_up (fst (fixup s e dfd ?nd fl))"
    using assms by (simp add: receiver_fixed_up)
  let ?D = "{j. j < length fl \<and> is_dir (fl ! j)}"
  have fin: "finite ?D" by simp
  have sub: "set (fixed_up (fst (fixup s e dfd ?nd fl))) \<subseteq> ?D"
    using fixup_from_subset[of s e dfd ?nd 0 fl] by (simp add: fixup_def)
  have le: "attempts (fst (rsync_receiver s e)) \<le> length (filter is_dir fl)"
    unfolding attempts_def fx
    using card_mono[OF fin sub] by (simp add: length_filter_conv_card)
  have zero: "attempts (fst (rsync_receiver s e)) = 0"
    if "dry_run (opts s) \<or> \<not> recursive (opts s) \<or>
       (\<not> preserve_times (opts s) \<and> \<not> preserve_perms (opts s))"
  proof -
    have "fixed_up (fst (fixup s e dfd ?nd fl)) = []"
      using that fixup_from_guard[of s e dfd ?nd 0 fl] by (auto simp: fixup_def)
    then show ?thesis
      by (simp add: attempts_def fx)
  qed
  have alld: "attempts (fst (rsync_receiver s e)) = length (filter is_dir fl)"
    if "recursive (opts s) \<and> \<not> dry_run (opts s) \<and>
       (preserve_times (opts s) \<or> preserve_perms (opts s)) \<and>
       (\<forall>j. utimensat_ok e j \<and> fchmodat_ok e j)"
  proof -
    have "set (fixed_up (fst (fixup s e dfd ?nd fl))) = ?D"
      using that fixup_from_all[of s e dfd ?nd 0 fl] by (simp add: fixup_def)
    then show ?thesis
      by (simp add: attempts_def fx length_filter_conv_card)
  qed
  show ?thesis
    using le zero alld by blast
qed

theorem fixup_attempts_witness:
  "at_post_process client fine =
     Some ([dir_a, dir_ab, file_abc], 3,
       \<lparr>cursor = 3, pfd1_fd = - 1, newdir = [1, 0, 0], phase = 1\<rparr>) \<and>
   recursive (opts client) \<and> \<not> dry_run (opts client) \<and> preserve_times (opts client) \<and>
   (\<forall>j. utimensat_ok fine j \<and> fchmodat_ok fine j) \<and>
   attempts (fst (rsync_receiver client fine)) = 2 \<and>
   length (filter is_dir [dir_a, dir_ab, file_abc]) = 2"
proof -
  have o: "recursive (opts client)" "\<not> dry_run (opts client)" "preserve_times (opts client)"
    "\<forall>j. utimensat_ok fine j \<and> fchmodat_ok fine j"
    by (simp_all add: session_defs)
  show ?thesis
    using fixup_attempts[OF post_process_client(1)] o
    by (simp add: post_process_client(1) dirs_of_list)
qed

text \<open>
  C9 as it is stated fails: with recursion, without dry-run, but with neither the times
  nor the permissions preserved, the loop of line 322 is not entered (line 320), and no
  fix-up is attempted on the two directories of the list.
\<close>

theorem fixup_attempts_counterexample:
  "at_post_process client_plain fine \<noteq> None \<and>
   recursive (opts client_plain) \<and> \<not> dry_run (opts client_plain) \<and>
   length (filter is_dir [dir_a, dir_ab, file_abc]) = 2 \<and>
   attempts (fst (rsync_receiver client_plain fine)) = 0"
proof -
  have o: "recursive (opts client_plain)" "\<not> dry_run (opts client_plain)"
    by (simp_all add: session_defs)
  show ?thesis
    using o by (simp add: post_process_client(2) dirs_of_list trace_client_plain attempts_def)
qed

lemma post_dir_sorted: "sorted (fixed_up (fst (post_dir s e k nd)))"
  by (auto simp: post_dir_def Let_def)

lemma fixup_from_sorted: "sorted (fixed_up (fst (fixup_from s e dfd nd k fl)))"
proof (induction fl arbitrary: k)
  case Nil
  show ?case by simp
next
  case (Cons f fl)
  have lo: "\<forall>x\<in>set (fixed_up (fst (post_dir s e k (nd ! k)))). x = k"
    using post_dir_fixed_up[of s e k "nd ! k"] by auto
  have hi: "\<forall>y\<in>set (fixed_up (fst (fixup_from s e dfd nd (Suc k) fl))). k \<le> y"
    using fixup_from_subset[of s e dfd nd "Suc k" fl] by auto
  show ?case
    using Cons.IH[of "Suc k"] post_dir_sorted[of s e k "nd ! k"] lo hi
    by (auto simp: sorted_append)
qed

text \<open>What the code does: the entries are fixed up in the order of the file list.\<close>

lemma fixup_in_list_order: "sorted (fixed_up (fst (rsync_receiver s e)))"
  using fixup_from_sorted[of s e]
  by (auto simp: receiver_fixed_up fixup_def split: option.splits)

text \<open>
  C4. The fix-up visits the directory entries in the order of the file list, lowest index
  first. In the session below the list has the directory \<open>a\<close> before the directory
  \<open>a/b\<close>, as the sender lists them, and \<open>a\<close> gets its times and mode before \<open>a/b\<close>
  does: the parent before the child, which is not post-order.
\<close>

theorem fixup_parent_before_child:
  "flist_recv fine = Some [dir_a, dir_ab, file_abc] \<and>
   below (path dir_ab) (path dir_a) \<and>
   fixed_up (fst (rsync_receiver client fine)) = [0, 0, 1, 1] \<and>
   \<not> post_order [dir_a, dir_ab, file_abc] (fixed_up (fst (rsync_receiver client fine)))"
proof -
  have a: "flist_recv fine = Some [dir_a, dir_ab, file_abc]"
    by (simp add: fine_def)
  have b: "below (path dir_ab) (path dir_a)"
    by (simp add: below_def dir_a_def dir_ab_def)
  have c: "fixed_up (fst (rsync_receiver client fine)) = [0, 0, 1, 1]"
    by (simp add: trace_client_fine)
  have "\<not> post_order [dir_a, dir_ab, file_abc] [0, 0, 1, 1]"
    using b by simp
  then show ?thesis
    using a b c by simp
qed

end
